theory Spec2Isabelle
  imports Complex_Main
begin

section \<open>Values exchanged with the outside\<close>

text \<open>
  The script drives a browser through Selenium and serves two Flask routes. Everything
  the browser, the file system and the clock do is outside the script, so it is taken
  from a \<open>world\<close>: a deterministic script of replies, indexed by the number of external
  calls made so far (\<open>tick\<close>). Every run of the program is the run against some world.
\<close>

type_synonym xpath = string

datatype exn =
    TimeoutException
  | WebDriverException
  | KeyError string
  | TypeError
  | AttributeError
  | ValueError
  | OverflowError
  | BadRequest
  | OSError

text \<open>
  What \<open>request.get_json()\<close> returns: Python values built by \<open>json.loads\<close>. A number
  with a fraction or exponent is a float; a finite float is given by its exact value,
  \<open>JNonFinite\<close> stands for \<open>NaN\<close> and the infinities (\<open>json.loads\<close> accepts them). A
  dict is an association list read with \<open>map_of\<close>; a string is a list of characters.
\<close>

datatype json =
    JNull
  | JBool bool
  | JInt int
  | JFloat rat
  | JNonFinite
  | JStr string
  | JArr "json list"
  | JObj "(string \<times> json) list"

text \<open>
  An element matched by a post-container locator, as the loop reads it:
  \<open>card.get_attribute("data-urn")\<close> (\<open>None\<close> or a string) and, for a relative locator,
  the \<open>.text\<close> of the elements \<open>card.find_elements\<close> returns, in document order.
\<close>

record post_card =
  data_urn :: "string option"
  texts :: "xpath \<Rightarrow> string list"

record world =
  fails :: "nat \<Rightarrow> exn option"
  elements :: "nat \<Rightarrow> xpath \<Rightarrow> post_card list"
  ready :: "nat \<Rightarrow> xpath \<Rightarrow> bool"
  latency :: "nat \<Rightarrow> nat"
  jitter :: "nat \<Rightarrow> nat"

text \<open>
  \<open>fails w t\<close>: the exception the external call number \<open>t\<close> raises, if any;
  \<open>elements w t xp\<close>: what \<open>driver.find_elements(By.XPATH, xp)\<close> returns at call \<open>t\<close>;
  \<open>ready w t xp\<close>: whether the \<open>WebDriverWait\<close> started at call \<open>t\<close> sees its condition
  on \<open>xp\<close> before its deadline; \<open>latency w t\<close>: the milliseconds call \<open>t\<close> takes;
  \<open>jitter w t\<close>: the draw behind \<open>random.uniform\<close>.
\<close>

record config =
  LINKEDIN_SESSION_ID :: "string option"
  HEADLESS :: bool

text \<open>
  The module globals \<open>driver\<close> and \<open>wait\<close> (both \<open>None\<close> at start), the clock in
  milliseconds, the count of external calls, and the tags \<open>dump_debug\<close> was called with
  (an observation of the calls, oldest first; the program never reads it). The program
  calls the driver only where \<open>driver\<close> is set: in \<open>initialize_browser\<close> after the launch,
  and in the routes after \<open>initialize_browser\<close> has returned true.
\<close>

record state =
  driver :: "nat option"
  wait :: "nat option"
  tick :: nat
  now :: nat
  dumps :: "string list"

definition initial_state :: state where
  "initial_state = \<lparr>driver = None, wait = None, tick = 0, now = 0, dumps = []\<rparr>"

section \<open>Statements that may raise\<close>

type_synonym 'a io = "state \<Rightarrow> (exn + 'a) \<times> state"

definition io_return :: "'a \<Rightarrow> 'a io" where
  "io_return x s = (Inr x, s)"

definition io_bind :: "'a io \<Rightarrow> ('a \<Rightarrow> 'b io) \<Rightarrow> 'b io" where
  "io_bind m f s = (case m s of (Inl e, s') \<Rightarrow> (Inl e, s') | (Inr x, s') \<Rightarrow> f x s')"

definition try_except :: "'a io \<Rightarrow> (exn \<Rightarrow> bool) \<Rightarrow> 'a io \<Rightarrow> 'a io" where
  "try_except body catches handler s =
     (case body s of
        (Inl e, s') \<Rightarrow> if catches e then handler s' else (Inl e, s')
      | (Inr x, s') \<Rightarrow> (Inr x, s'))"

definition advance :: "world \<Rightarrow> state \<Rightarrow> state" where
  "advance w s = s\<lparr>tick := tick s + 1, now := now s + latency w (tick s)\<rparr>"

definition external :: "world \<Rightarrow> unit io" where
  "external w s =
     (case fails w (tick s) of
        Some e \<Rightarrow> (Inl e, advance w s)
      | None \<Rightarrow> (Inr (), advance w s))"

definition find_elements :: "world \<Rightarrow> xpath \<Rightarrow> post_card list io" where
  "find_elements w xp s =
     (case fails w (tick s) of
        Some e \<Rightarrow> (Inl e, advance w s)
      | None \<Rightarrow> (Inr (elements w (tick s) xp), advance w s))"

definition sleep :: "nat \<Rightarrow> unit io" where
  "sleep ms s = (Inr (), s\<lparr>now := now s + ms\<rparr>)"

definition sleep_uniform :: "world \<Rightarrow> nat \<Rightarrow> nat \<Rightarrow> unit io" where
  "sleep_uniform w lo hi s = sleep (lo + jitter w (tick s) mod (hi - lo + 1)) s"

section \<open>Selectors\<close>

definition POST_CONTAINER_XPATHS :: "xpath list" where
  "POST_CONTAINER_XPATHS =
     [''//div[@data-urn and .//span[contains(@class,'' @ [CHR 0x27] @ ''update-components-actor__name'' @ [CHR 0x27] @ '')]]'',
      ''//div[@data-urn and .//a[contains(@href,'' @ [CHR 0x27] @ ''/in/'' @ [CHR 0x27] @ '')]]'',
      ''//div[@data-urn]'']"

definition AUTHOR_XPATHS :: "xpath list" where
  "AUTHOR_XPATHS =
     [''.//span[contains(@class,'' @ [CHR 0x27] @ ''update-components-actor__name'' @ [CHR 0x27] @ '')]'',
      ''.//a[contains(@href,'' @ [CHR 0x27] @ ''/in/'' @ [CHR 0x27] @ '')][1]'']"

definition TEXT_XPATHS :: "xpath list" where
  "TEXT_XPATHS =
     [''.//div[contains(@class,'' @ [CHR 0x27] @ ''update-components-text'' @ [CHR 0x27] @ '')]//span[@dir='' @ [CHR 0x27] @ ''ltr'' @ [CHR 0x27] @ '']'',
      ''.//span[@dir='' @ [CHR 0x27] @ ''ltr'' @ [CHR 0x27] @ '']'']"

definition LOGIN_OK :: "xpath list" where
  "LOGIN_OK =
     [''//input[contains(@aria-label,'' @ [CHR 0x27] @ ''Search'' @ [CHR 0x27] @ '')]'',
      ''//button[contains(@aria-label,'' @ [CHR 0x27] @ ''Start a post'' @ [CHR 0x27] @ '')]'',
      ''//*[contains(text(),'' @ [CHR 0x27] @ ''Start a post'' @ [CHR 0x27] @ '')]'']"

definition LOGIN_PAGE :: "xpath list" where
  "LOGIN_PAGE =
     [''//input[@name='' @ [CHR 0x27] @ ''session_key'' @ [CHR 0x27] @ '']'',
      ''//input[@name='' @ [CHR 0x27] @ ''session_password'' @ [CHR 0x27] @ '']'']"

definition CHECKPOINT :: "xpath list" where
  "CHECKPOINT =
     [''//*[contains(translate(.,'' @ [CHR 0x27] @ ''VERIFY'' @ [CHR 0x27] @ '','' @ [CHR 0x27] @ ''verify'' @ [CHR 0x27] @ ''),'' @ [CHR 0x27] @ ''verify'' @ [CHR 0x27] @ '')]'',
      ''//*[contains(translate(.,'' @ [CHR 0x27] @ ''CHALLENGE'' @ [CHR 0x27] @ '','' @ [CHR 0x27] @ ''challenge'' @ [CHR 0x27] @ ''),'' @ [CHR 0x27] @ ''challenge'' @ [CHR 0x27] @ '')]'']"

section \<open>Utilities\<close>

text \<open>
  \<open>dump_debug(tag)\<close>: returns at once while there is no driver; otherwise opens the
  markup file, reads \<open>driver.page_source\<close>, writes it, and saves a screenshot. Each of
  the four is an external call and may raise.
\<close>

definition dump_debug :: "world \<Rightarrow> string \<Rightarrow> unit io" where
  "dump_debug w tag s =
     (let s0 = s\<lparr>dumps := dumps s @ [tag]\<rparr> in
      if driver s0 = None then (Inr (), s0)
      else io_bind (external w) (\<lambda>_.
           io_bind (external w) (\<lambda>_.
           io_bind (external w) (\<lambda>_.
           external w))) s0)"

text \<open>The \<open>for xp in xpaths\<close> loop of \<open>wait_for_any\<close>: true at the first locator that finds something.\<close>

fun any_found :: "world \<Rightarrow> xpath list \<Rightarrow> bool io" where
  "any_found w [] s = (Inr False, s)"
| "any_found w (xp # xps) s =
     (case find_elements w xp s of
        (Inl e, s') \<Rightarrow> (Inl e, s')
      | (Inr found, s') \<Rightarrow> if found \<noteq> [] then (Inr True, s') else any_found w xps s')"

lemma any_found_now: "now s \<le> now (snd (any_found w xps s))"
proof (induction xps arbitrary: s)
  case Nil
  show ?case by simp
next
  case (Cons xp xps)
  have step: "now s \<le> now (advance w s)"
    by (simp add: advance_def)
  show ?case
    using step Cons.IH [of "advance w s"]
    by (auto simp: find_elements_def split: option.splits)
qed

text \<open>The \<open>while time.time() < end\<close> loop of \<open>wait_for_any\<close>; \<open>time.sleep(0.5)\<close> moves the clock.\<close>

function wait_loop :: "world \<Rightarrow> xpath list \<Rightarrow> nat \<Rightarrow> bool io" where
  "wait_loop w xpaths end s =
     (if now s < end then
        (case any_found w xpaths s of
           (Inl e, s') \<Rightarrow> (Inl e, s')
         | (Inr True, s') \<Rightarrow> (Inr True, s')
         | (Inr False, s') \<Rightarrow> wait_loop w xpaths end (snd (sleep 500 s')))
      else (Inr False, s))"
  by pat_completeness auto
termination
proof (relation "measure (\<lambda>(w, xpaths, deadline, s). deadline - now s)")
  show "wf (measure (\<lambda>(w, xpaths, deadline, s). deadline - now s))"
    by simp
next
  fix w xpaths deadline s x1 s' x2
  assume "now s < deadline" and "(x1, s') = any_found w xpaths s"
  then have "now s \<le> now s'"
    using any_found_now [of s w xpaths] by (metis snd_conv)
  then show "((w, xpaths, deadline, snd (sleep 500 s')), (w, xpaths, deadline, s))
      \<in> measure (\<lambda>(w, xpaths, deadline, s). deadline - now s)"
    using \<open>now s < deadline\<close> by (simp add: sleep_def)
qed

declare wait_loop.simps [simp del]

definition wait_for_any :: "world \<Rightarrow> xpath list \<Rightarrow> nat \<Rightarrow> bool io" where
  "wait_for_any w xpaths timeout s = wait_loop w xpaths (now s + timeout) s"

text \<open>One pass of \<open>human_scroll\<close>: two \<open>execute_script\<close> calls, each followed by a random pause.\<close>

definition scroll_pass :: "world \<Rightarrow> unit io" where
  "scroll_pass w =
     io_bind (external w) (\<lambda>_.
     io_bind (sleep_uniform w 1500 2500) (\<lambda>_.
     io_bind (external w) (\<lambda>_.
     sleep_uniform w 1500 2500)))"

fun human_scroll :: "world \<Rightarrow> nat \<Rightarrow> unit io" where
  "human_scroll w 0 = io_return ()"
| "human_scroll w (Suc passes) = io_bind (scroll_pass w) (\<lambda>_. human_scroll w passes)"

section \<open>Browser init\<close>

definition driver_get :: "world \<Rightarrow> 'a \<Rightarrow> unit io" where
  "driver_get w url = external w"

definition add_cookie :: "world \<Rightarrow> string \<Rightarrow> unit io" where
  "add_cookie w li_at = external w"

definition chrome_options :: "config \<Rightarrow> string list" where
  "chrome_options cfg =
     [''--disable-blink-features=AutomationControlled'', ''--disable-notifications'',
      ''--no-sandbox'', ''--disable-dev-shm-usage'', ''--window-size=1920,1080'']
     @ (if HEADLESS cfg then [''--headless=new''] else [])"

text \<open>
  \<open>driver = webdriver.Chrome(options=options); wait = WebDriverWait(driver, 25)\<close>: the
  globals are assigned only when the constructor returns.
\<close>

definition launch :: "world \<Rightarrow> string list \<Rightarrow> unit io" where
  "launch w options s =
     (case fails w (tick s) of
        Some e \<Rightarrow> (Inl e, advance w s)
      | None \<Rightarrow> (Inr (), (advance w s)\<lparr>driver := Some (tick s), wait := Some 25000\<rparr>))"

text \<open>Lines 142 to 155 of \<open>initialize_browser\<close>: the three polls and their returns.\<close>

definition detect_login :: "world \<Rightarrow> bool io" where
  "detect_login w =
     io_bind (wait_for_any w LOGIN_OK 25000) (\<lambda>logged_in.
       if logged_in then io_return True
       else io_bind (wait_for_any w CHECKPOINT 3000) (\<lambda>checkpoint.
         if checkpoint then io_bind (dump_debug w ''checkpoint'') (\<lambda>_. io_return False)
         else io_bind (wait_for_any w LOGIN_PAGE 3000) (\<lambda>login_page.
           if login_page then io_bind (dump_debug w ''login_page'') (\<lambda>_. io_return False)
           else io_bind (dump_debug w ''unknown_state'') (\<lambda>_. io_return False))))"

text \<open>Lines 96 to 124 of \<open>initialize_browser\<close>: launch, cookie injection, landing page.\<close>

definition open_session :: "config \<Rightarrow> world \<Rightarrow> unit io" where
  "open_session cfg w =
     io_bind (launch w (chrome_options cfg)) (\<lambda>_.
     io_bind (driver_get w ''https://www.linkedin.com/'') (\<lambda>_.
     io_bind (sleep 2000) (\<lambda>_.
     io_bind (add_cookie w (the (LINKEDIN_SESSION_ID cfg))) (\<lambda>_.
     io_bind (driver_get w ''https://www.linkedin.com/feed/'') (\<lambda>_.
     sleep 3000)))))"

text \<open>The body of the \<open>try\<close> of \<open>initialize_browser\<close> (lines 96 to 155).\<close>

definition start_session :: "config \<Rightarrow> world \<Rightarrow> bool io" where
  "start_session cfg w = io_bind (open_session cfg w) (\<lambda>_. detect_login w)"

text \<open>\<open>not LINKEDIN_SESSION_ID\<close>: the variable is unset or empty.\<close>

definition token_missing :: "config \<Rightarrow> bool" where
  "token_missing cfg = (case LINKEDIN_SESSION_ID cfg of None \<Rightarrow> True | Some v \<Rightarrow> v = [])"

definition initialize_browser :: "config \<Rightarrow> world \<Rightarrow> bool io" where
  "initialize_browser cfg w s =
     (if driver s \<noteq> None then (Inr True, s)
      else if token_missing cfg then (Inr False, s)
      else try_except (start_session cfg w) (\<lambda>e. True)
             (io_bind (dump_debug w ''init_failed'') (\<lambda>_. io_return False)) s)"

section \<open>Scraper\<close>

text \<open>
  Python strings are read as lists of characters below code point 256; \<open>str.strip()\<close>
  removes the characters \<open>str.isspace\<close> accepts there.
\<close>

definition isspace :: "char \<Rightarrow> bool" where
  "isspace c = (let n = (of_char c :: nat) in (9 \<le> n \<and> n \<le> 13) \<or> (28 \<le> n \<and> n \<le> 32) \<or> n = 133 \<or> n = 160)"

definition strip :: "string \<Rightarrow> string" where
  "strip t = rev (dropWhile isspace (rev (dropWhile isspace t)))"

definition lstrip :: "char \<Rightarrow> string \<Rightarrow> string" where
  "lstrip c t = dropWhile (\<lambda>x. x = c) t"

record post =
  post_author :: string
  post_text :: string
  post_url :: string

text \<open>
  \<open>next((el.text.strip() for xp in xpaths for el in card.find_elements(By.XPATH, xp) if el), "")\<close>:
  a WebElement is always truthy, so this is the text of the first element found.
\<close>

definition first_text :: "post_card \<Rightarrow> xpath list \<Rightarrow> string" where
  "first_text crd xpaths =
     (case concat (map (texts crd) xpaths) of [] \<Rightarrow> [] | t # _ \<Rightarrow> strip t)"

definition canonical_url :: "string \<Rightarrow> string" where
  "canonical_url urn = ''https://www.linkedin.com/feed/update/'' @ urn @ ''/''"

definition make_post :: "post_card \<Rightarrow> string \<Rightarrow> post" where
  "make_post crd urn =
     \<lparr>post_author = first_text crd AUTHOR_XPATHS,
      post_text = first_text crd TEXT_XPATHS,
      post_url = canonical_url urn\<rparr>"

text \<open>
  The \<open>for card in ...\<close> loop (lines 184 to 209) on the pair \<open>(posts, seen)\<close>:
  \<open>continue\<close> on a missing, empty or seen identifier, \<open>break\<close> once the cap is reached.
\<close>

fun collect :: "int \<Rightarrow> post_card list \<Rightarrow> post list \<times> string set \<Rightarrow> post list \<times> string set" where
  "collect max_posts [] (posts, seen) = (posts, seen)"
| "collect max_posts (crd # cards) (posts, seen) =
     (case data_urn crd of
        None \<Rightarrow> collect max_posts cards (posts, seen)
      | Some urn \<Rightarrow>
          if urn = [] \<or> urn \<in> seen then collect max_posts cards (posts, seen)
          else if int (length (posts @ [make_post crd urn])) \<ge> max_posts
               then (posts @ [make_post crd urn], insert urn seen)
               else collect max_posts cards (posts @ [make_post crd urn], insert urn seen))"

text \<open>
  The \<open>while len(posts) < max_posts\<close> loop. Nothing bounds the number of passes, so the
  loop is a partial function: \<open>None\<close> is the run that never leaves the loop.
\<close>

partial_function (option) harvest_loop ::
  "world \<Rightarrow> xpath \<Rightarrow> int \<Rightarrow> post list \<times> string set \<Rightarrow> state \<Rightarrow> ((exn + post list) \<times> state) option" where
  "harvest_loop w chosen_xpath max_posts acc s =
     (if int (length (fst acc)) < max_posts then
        (case find_elements w chosen_xpath s of
           (Inl e, s1) \<Rightarrow> Some (Inl e, s1)
         | (Inr cards, s1) \<Rightarrow>
             (case human_scroll w 1 s1 of
                (Inl e, s2) \<Rightarrow> Some (Inl e, s2)
              | (Inr u, s2) \<Rightarrow> harvest_loop w chosen_xpath max_posts (collect max_posts cards acc) s2))
      else Some (Inr (fst acc), s))"

declare harvest_loop.simps [code]

text \<open>\<open>posts[:max_posts]\<close>, also for a negative bound.\<close>

definition slice_to :: "int \<Rightarrow> 'a list \<Rightarrow> 'a list" where
  "slice_to n xs = (if 0 \<le> n then take (nat n) xs else take (length xs - nat (- n)) xs)"

text \<open>
  \<open>next((xp for xp in POST_CONTAINER_XPATHS if driver.find_elements(By.XPATH, xp)), None)\<close>:
  the candidates are tried in order and the search stops at the first that finds something.
\<close>

fun first_matching :: "world \<Rightarrow> xpath list \<Rightarrow> xpath option io" where
  "first_matching w [] s = (Inr None, s)"
| "first_matching w (xp # xps) s =
     (case find_elements w xp s of
        (Inl e, s') \<Rightarrow> (Inl e, s')
      | (Inr found, s') \<Rightarrow> if found \<noteq> [] then (Inr (Some xp), s') else first_matching w xps s')"

definition open_feed :: "world \<Rightarrow> string \<Rightarrow> xpath option io" where
  "open_feed w hashtag =
     io_bind (driver_get w (''https://www.linkedin.com/feed/hashtag/'' @ hashtag @ ''/?sortBy=RECENT'')) (\<lambda>_.
     io_bind (sleep 3000) (\<lambda>_.
     io_bind (human_scroll w 2) (\<lambda>_.
     first_matching w POST_CONTAINER_XPATHS)))"

definition scrape_hashtag ::
  "world \<Rightarrow> string \<Rightarrow> int \<Rightarrow> state \<Rightarrow> ((exn + post list) \<times> state) option" where
  "scrape_hashtag w hashtag max_posts s =
     (case open_feed w hashtag s of
        (Inl e, s1) \<Rightarrow> Some (Inl e, s1)
      | (Inr None, s1) \<Rightarrow> Some (io_bind (dump_debug w ''no_posts'') (\<lambda>_. io_return []) s1)
      | (Inr (Some chosen_xpath), s1) \<Rightarrow>
          (case harvest_loop w chosen_xpath max_posts ([], {}) s1 of
             None \<Rightarrow> None
           | Some (Inl e, s2) \<Rightarrow> Some (Inl e, s2)
           | Some (Inr posts, s2) \<Rightarrow> Some (Inr (slice_to max_posts posts), s2)))"

section \<open>API routes\<close>

text \<open>
  A request is what \<open>request.get_json()\<close> does for it: Flask raises for a body it does
  not accept, and returns the parsed value otherwise. A response is the status code and
  the value given to \<open>jsonify\<close>; an exception that leaves the view function is \<open>Inl\<close>.
\<close>

type_synonym request = "exn + json"

type_synonym response = "nat \<times> json"

text \<open>
  The two built-ins the routes apply to request values and whose definition is not in
  the script: \<open>str(v)\<close> for a value that is not already a string, and \<open>int(s)\<close> for a
  string (\<open>None\<close> when it raises \<open>ValueError\<close>).
\<close>

record builtins =
  str_of :: "json \<Rightarrow> string"
  int_of_str :: "string \<Rightarrow> int option"

definition truthy :: "json \<Rightarrow> bool" where
  "truthy v =
     (case v of
        JNull \<Rightarrow> False
      | JBool b \<Rightarrow> b
      | JInt n \<Rightarrow> n \<noteq> 0
      | JFloat q \<Rightarrow> q \<noteq> 0
      | JNonFinite \<Rightarrow> True
      | JStr t \<Rightarrow> t \<noteq> []
      | JArr xs \<Rightarrow> xs \<noteq> []
      | JObj kvs \<Rightarrow> kvs \<noteq> [])"

text \<open>\<open>data.get(key, default)\<close>: only a dict has the method.\<close>

definition dict_get :: "json \<Rightarrow> string \<Rightarrow> json \<Rightarrow> exn + json" where
  "dict_get data key dflt =
     (case data of
        JObj kvs \<Rightarrow> (case map_of kvs key of None \<Rightarrow> Inr dflt | Some v \<Rightarrow> Inr v)
      | _ \<Rightarrow> Inl AttributeError)"

text \<open>\<open>data[key]\<close> with a string key: \<open>KeyError\<close> on a dict without it, \<open>TypeError\<close> on anything else.\<close>

definition subscript :: "json \<Rightarrow> string \<Rightarrow> exn + json" where
  "subscript data key =
     (case data of
        JObj kvs \<Rightarrow> (case map_of kvs key of None \<Rightarrow> Inl (KeyError key) | Some v \<Rightarrow> Inr v)
      | _ \<Rightarrow> Inl TypeError)"

definition py_str :: "builtins \<Rightarrow> json \<Rightarrow> string" where
  "py_str py v = (case v of JStr t \<Rightarrow> t | _ \<Rightarrow> str_of py v)"

text \<open>
  \<open>int(v)\<close>: a float is truncated towards zero, a bool is 0 or 1, a string is parsed;
  \<open>None\<close>, a list and a dict raise \<open>TypeError\<close>. For \<open>NaN\<close> Python raises \<open>ValueError\<close> and
  for an infinity \<open>OverflowError\<close>; the one caller catches every exception, and the model
  raises \<open>OverflowError\<close> for both.
\<close>

definition py_int :: "builtins \<Rightarrow> json \<Rightarrow> exn + int" where
  "py_int py v =
     (case v of
        JInt n \<Rightarrow> Inr n
      | JBool b \<Rightarrow> Inr (if b then 1 else 0)
      | JFloat q \<Rightarrow> Inr (if 0 \<le> q then \<lfloor>q\<rfloor> else \<lceil>q\<rceil>)
      | JNonFinite \<Rightarrow> Inl OverflowError
      | JStr t \<Rightarrow> (case int_of_str py t of None \<Rightarrow> Inl ValueError | Some n \<Rightarrow> Inr n)
      | _ \<Rightarrow> Inl TypeError)"

text \<open>Lines 228 to 234 of \<open>scrape\<close>: the \<open>try\<close> with its bare \<open>except\<close>, then the hard limit.\<close>

definition requested_max_posts :: "builtins \<Rightarrow> json \<Rightarrow> int" where
  "requested_max_posts py data =
     (case dict_get data ''max_posts'' (JInt 5) of
        Inl e \<Rightarrow> 5
      | Inr v \<Rightarrow> (case py_int py v of Inl e \<Rightarrow> 5 | Inr n \<Rightarrow> n))"

definition effective_max_posts :: "builtins \<Rightarrow> json \<Rightarrow> int" where
  "effective_max_posts py data = max 1 (min (requested_max_posts py data) 25)"

definition init_failed :: response where
  "init_failed = (500, JObj [(''error'', JStr ''browser init failed'')])"

definition no_posts_found :: response where
  "no_posts_found = (404, JObj [(''error'', JStr ''no posts found'')])"

definition comment_success :: response where
  "comment_success = (200, JObj [(''status'', JStr ''success'')])"

definition comment_failed :: response where
  "comment_failed = (500, JObj [(''status'', JStr ''failed'')])"

definition post_json :: "post \<Rightarrow> json" where
  "post_json p =
     JObj [(''author'', JStr (post_author p)), (''text'', JStr (post_text p)), (''url'', JStr (post_url p))]"

definition scrape ::
  "builtins \<Rightarrow> config \<Rightarrow> world \<Rightarrow> request \<Rightarrow> state \<Rightarrow> ((exn + response) \<times> state) option" where
  "scrape py cfg w request s =
     (case initialize_browser cfg w s of
        (Inl e, s1) \<Rightarrow> Some (Inl e, s1)
      | (Inr False, s1) \<Rightarrow> Some (Inr init_failed, s1)
      | (Inr True, s1) \<Rightarrow>
          (case request of
             Inl e \<Rightarrow> Some (Inl e, s1)
           | Inr body \<Rightarrow>
               (let data = (if truthy body then body else JObj []) in
                case dict_get data ''hashtag'' (JStr ''hiring'') of
                  Inl e \<Rightarrow> Some (Inl e, s1)
                | Inr h \<Rightarrow>
                    (case scrape_hashtag w (strip (lstrip (CHR ''#'') (py_str py h)))
                            (effective_max_posts py data) s1 of
                       None \<Rightarrow> None
                     | Some (Inl e, s2) \<Rightarrow> Some (Inl e, s2)
                     | Some (Inr results, s2) \<Rightarrow>
                         if results = [] then Some (Inr no_posts_found, s2)
                         else Some (Inr (200, JArr (map post_json results)), s2)))))"

definition COMMENT_BUTTON :: xpath where
  "COMMENT_BUTTON = ''//button[contains(@aria-label,'' @ [CHR 0x27] @ ''Comment'' @ [CHR 0x27] @ '')]''"

definition COMMENT_BOX :: xpath where
  "COMMENT_BOX = ''//div[contains(@data-placeholder,'' @ [CHR 0x27] @ ''Add a comment'' @ [CHR 0x27] @ '')]''"

definition SUBMIT_BUTTON :: xpath where
  "SUBMIT_BUTTON = ''//button[contains(@class,'' @ [CHR 0x27] @ ''comments-comment-box__submit-button'' @ [CHR 0x27] @ '')]''"

text \<open>
  \<open>wait.until(condition)\<close> on the global \<open>wait\<close>: returns the element when the condition
  holds before the deadline and raises \<open>TimeoutException\<close> otherwise.
\<close>

definition wait_until :: "world \<Rightarrow> xpath \<Rightarrow> unit io" where
  "wait_until w xp s =
     (case wait s of
        None \<Rightarrow> (Inl AttributeError, s)
      | Some timeout \<Rightarrow>
          (case fails w (tick s) of
             Some e \<Rightarrow> (Inl e, advance w s)
           | None \<Rightarrow>
               if ready w (tick s) xp then (Inr (), advance w s)
               else (Inl TimeoutException, snd (sleep timeout (advance w s)))))"

definition click :: "world \<Rightarrow> unit io" where
  "click w = external w"

definition send_keys :: "world \<Rightarrow> json \<Rightarrow> unit io" where
  "send_keys w ch = external w"

text \<open>What \<open>for ch in v\<close> runs through.\<close>

definition iterate :: "json \<Rightarrow> exn + json list" where
  "iterate v =
     (case v of
        JStr t \<Rightarrow> Inr (map (\<lambda>c. JStr [c]) t)
      | JArr xs \<Rightarrow> Inr xs
      | JObj kvs \<Rightarrow> Inr (map (\<lambda>kv. JStr (fst kv)) kvs)
      | _ \<Rightarrow> Inl TypeError)"

fun type_keys :: "world \<Rightarrow> json list \<Rightarrow> unit io" where
  "type_keys w [] = io_return ()"
| "type_keys w (ch # chs) =
     io_bind (send_keys w ch) (\<lambda>_.
     io_bind (sleep_uniform w 50 150) (\<lambda>_.
     type_keys w chs))"

definition raise_or :: "exn + 'a \<Rightarrow> 'a io" where
  "raise_or r s = (case r of Inl e \<Rightarrow> (Inl e, s) | Inr x \<Rightarrow> (Inr x, s))"

text \<open>The body of the \<open>try\<close> of \<open>comment\<close> (lines 254 to 272).\<close>

definition submit_comment :: "world \<Rightarrow> json \<Rightarrow> response io" where
  "submit_comment w data =
     io_bind (wait_until w COMMENT_BUTTON) (\<lambda>_.
     io_bind (click w) (\<lambda>_.
     io_bind (wait_until w COMMENT_BOX) (\<lambda>_.
     io_bind (raise_or (subscript data ''comment'')) (\<lambda>text.
     io_bind (raise_or (iterate text)) (\<lambda>chs.
     io_bind (type_keys w chs) (\<lambda>_.
     io_bind (wait_until w SUBMIT_BUTTON) (\<lambda>_.
     io_bind (click w) (\<lambda>_.
     io_return comment_success))))))))"

definition comment :: "config \<Rightarrow> world \<Rightarrow> request \<Rightarrow> response io" where
  "comment cfg w request s =
     (case initialize_browser cfg w s of
        (Inl e, s1) \<Rightarrow> (Inl e, s1)
      | (Inr False, s1) \<Rightarrow> (Inr init_failed, s1)
      | (Inr True, s1) \<Rightarrow>
          io_bind (raise_or request) (\<lambda>data.
          io_bind (raise_or (subscript data ''post_url'')) (\<lambda>post_url.
          io_bind (driver_get w post_url) (\<lambda>_.
          io_bind (sleep 3000) (\<lambda>_.
          try_except (submit_comment w data) (\<lambda>e. e = TimeoutException)
            (io_bind (dump_debug w ''comment_failed'') (\<lambda>_. io_return comment_failed)))))) s1)"

text \<open>
  The application serves one request at a time (\<open>threaded=False\<close>): a run is a list of
  requests handled in order, each on the state the previous one left.
\<close>

datatype route = Scrape | Comment

definition handle ::
  "builtins \<Rightarrow> config \<Rightarrow> world \<Rightarrow> route \<times> request \<Rightarrow> state \<Rightarrow> ((exn + response) \<times> state) option" where
  "handle py cfg w rq s =
     (case fst rq of
        Scrape \<Rightarrow> scrape py cfg w (snd rq) s
      | Comment \<Rightarrow> Some (comment cfg w (snd rq) s))"

fun serve :: "builtins \<Rightarrow> config \<Rightarrow> world \<Rightarrow> (route \<times> request) list \<Rightarrow> state \<Rightarrow> ((exn + response) list \<times> state) option" where
  "serve py cfg w [] s = Some ([], s)"
| "serve py cfg w (rq # rqs) s =
     (case handle py cfg w rq s of
        None \<Rightarrow> None
      | Some (r, s1) \<Rightarrow>
          (case serve py cfg w rqs s1 of
             None \<Rightarrow> None
           | Some (rs, s2) \<Rightarrow> Some (r # rs, s2)))"

section \<open>The specification's vocabulary\<close>

text \<open>
  The terminal states of the session state machine, and state detection as the
  specification words it: poll for the Authenticated signals for 25 s, then for the
  checkpoint signals for 3 s, then for the login page signals for 3 s; UnknownState if
  none matched.
\<close>

datatype auth_state =
    Uninitialized
  | Authenticated
  | CheckpointChallenge
  | LoginPageDetected
  | UnknownState

definition detect_state :: "world \<Rightarrow> auth_state io" where
  "detect_state w =
     io_bind (wait_for_any w LOGIN_OK 25000) (\<lambda>a.
       if a then io_return Authenticated
       else io_bind (wait_for_any w CHECKPOINT 3000) (\<lambda>c.
         if c then io_return CheckpointChallenge
         else io_bind (wait_for_any w LOGIN_PAGE 3000) (\<lambda>l.
           io_return (if l then LoginPageDetected else UnknownState))))"

fun tag_of :: "auth_state \<Rightarrow> string" where
  "tag_of CheckpointChallenge = ''checkpoint''"
| "tag_of LoginPageDetected = ''login_page''"
| "tag_of UnknownState = ''unknown_state''"
| "tag_of st = []"

text \<open>What each terminal state is to end in: true for Authenticated, a dump with its tag and false otherwise.\<close>

definition report :: "world \<Rightarrow> auth_state \<Rightarrow> bool io" where
  "report w st =
     (if st = Authenticated then io_return True
      else io_bind (dump_debug w (tag_of st)) (\<lambda>_. io_return False))"

text \<open>
  First-seen order: the posts of the cards of an enumeration, each identifier kept at its
  first occurrence, cards without an identifier and identifiers in \<open>seen\<close> left out.
\<close>

fun first_seen :: "string set \<Rightarrow> post_card list \<Rightarrow> post list" where
  "first_seen seen [] = []"
| "first_seen seen (c # cs) =
     (case data_urn c of
        None \<Rightarrow> first_seen seen cs
      | Some urn \<Rightarrow>
          if urn = [] \<or> urn \<in> seen then first_seen seen cs
          else make_post c urn # first_seen (insert urn seen) cs)"

definition urn_set :: "post_card list \<Rightarrow> string set" where
  "urn_set cs = {urn. urn \<noteq> [] \<and> Some urn \<in> data_urn ` set cs}"

text \<open>
  The cards the harvest loop enumerates in \<open>n\<close> passes from external call \<open>t\<close> on: a
  pass is one \<open>find_elements\<close> and the two \<open>execute_script\<close> of its scroll.
\<close>

definition encounters :: "world \<Rightarrow> xpath \<Rightarrow> nat \<Rightarrow> nat \<Rightarrow> post_card list" where
  "encounters w xp t n = concat (map (\<lambda>k. elements w (t + 3 * k) xp) [0..<n])"

text \<open>A step that leaves the globals and the dump log alone, and lets time pass.\<close>

definition kept :: "state \<Rightarrow> state \<Rightarrow> bool" where
  "kept s s' =
     (driver s' = driver s \<and> wait s' = wait s \<and> dumps s' = dumps s
      \<and> tick s \<le> tick s' \<and> now s \<le> now s')"

text \<open>None of the locators \<open>xps\<close> ever matches an element.\<close>

definition absent :: "world \<Rightarrow> xpath list \<Rightarrow> bool" where
  "absent w xps = (\<forall>t. \<forall>xp \<in> set xps. elements w t xp = [])"


text \<open>The dump log of \<open>s'\<close> extends that of \<open>s\<close>; and by at least one tag.\<close>

definition grown :: "state \<Rightarrow> state \<Rightarrow> bool" where
  "grown s s' = (\<exists>tags. dumps s' = dumps s @ tags)"

definition dumped :: "state \<Rightarrow> state \<Rightarrow> bool" where
  "dumped s s' = (\<exists>tags. tags \<noteq> [] \<and> dumps s' = dumps s @ tags)"

text \<open>A world in which no external call raises; a wait may still time out.\<close>

definition calm :: "world \<Rightarrow> bool" where
  "calm w = (fails w = (\<lambda>t. None))"

text \<open>
  The invariant of the harvest loop against the cards \<open>enc\<close> enumerated so far: the
  posts are the first-seen posts of \<open>enc\<close> cut at the cap, and as long as the cap is not
  reached \<open>seen\<close> holds exactly the identifiers of \<open>enc\<close>.
\<close>

definition in_order :: "int \<Rightarrow> post list \<times> string set \<Rightarrow> post_card list \<Rightarrow> bool" where
  "in_order max_posts acc enc =
     (fst acc = take (nat max_posts) (first_seen {} enc)
      \<and> (int (length (fst acc)) < max_posts \<longrightarrow>
            snd acc = urn_set enc \<and> fst acc = first_seen {} enc))"

text \<open>
  A loop state that cannot reach the cap: every identifier seen is one of \<open>ids\<close>, and
  there is one post for each.
\<close>

definition stalled :: "string set \<Rightarrow> post list \<times> string set \<Rightarrow> bool" where
  "stalled ids acc = (finite (snd acc) \<and> snd acc \<subseteq> ids \<and> length (fst acc) = card (snd acc))"

section \<open>Sample inputs\<close>

text \<open>
  Concrete inputs the theorems below are run on. \<open>plain_builtins\<close> stands in where
  neither built-in is consulted.
\<close>

definition plain_builtins :: builtins where
  "plain_builtins = \<lparr>str_of = (\<lambda>v. []), int_of_str = (\<lambda>t. None)\<rparr>"

definition no_token :: config where
  "no_token = \<lparr>LINKEDIN_SESSION_ID = None, HEADLESS = False\<rparr>"

definition with_token :: config where
  "with_token = \<lparr>LINKEDIN_SESSION_ID = Some ''AQEDAT'', HEADLESS = True\<rparr>"

definition blank_world :: world where
  "blank_world =
     \<lparr>fails = (\<lambda>t. None), elements = (\<lambda>t xp. []), ready = (\<lambda>t xp. False),
      latency = (\<lambda>t. 0), jitter = (\<lambda>t. 0)\<rparr>"

definition a_card :: post_card where
  "a_card = \<lparr>data_urn = Some ''urn:li:activity:1'', texts = (\<lambda>xp. [])\<rparr>"

text \<open>A page that shows every signal at once, and one that shows only the checkpoint signals.\<close>

definition busy_world :: world where
  "busy_world = blank_world\<lparr>elements := (\<lambda>t xp. [a_card])\<rparr>"

definition checkpoint_world :: world where
  "checkpoint_world =
     blank_world\<lparr>elements := (\<lambda>t xp. if xp \<in> set CHECKPOINT then [a_card] else [])\<rparr>"

text \<open>
  A feed that renders seven distinct posts at once, one of them twice and one container
  without an identifier in between.
\<close>

definition numbered :: "string \<Rightarrow> post_card" where
  "numbered urn = \<lparr>data_urn = Some urn, texts = (\<lambda>xp. [])\<rparr>"

definition feed_cards :: "post_card list" where
  "feed_cards =
     [numbered ''u1'', numbered ''u2'', numbered ''u1'', \<lparr>data_urn = None, texts = (\<lambda>xp. [])\<rparr>,
      numbered ''u3'', numbered ''u4'', numbered ''u5'', numbered ''u6'', numbered ''u7'']"

definition feed_world :: world where
  "feed_world = blank_world\<lparr>elements := (\<lambda>t xp. feed_cards)\<rparr>"

text \<open>
  A session that signs in (the feed shows the Authenticated signals) and then shows no
  post container; the same with the comment button never clickable is \<open>signed_in_world\<close>
  itself, since \<open>ready\<close> is false throughout; in \<open>no_submit_world\<close> the comment button
  and the input are there in time and only the submit button never is. \<open>flaky_world\<close>
  signs in and then fails the sixth external call, the first navigation after the session
  is up.
\<close>

definition signed_in_world :: world where
  "signed_in_world =
     blank_world\<lparr>elements := (\<lambda>t xp. if xp \<in> set LOGIN_OK then [a_card] else [])\<rparr>"


definition flaky_world :: world where
  "flaky_world =
     signed_in_world\<lparr>fails := (\<lambda>t. if t = 5 then Some WebDriverException else None)\<rparr>"

section \<open>The cap of a harvest\<close>

lemma effective_max_posts_range: "1 \<le> effective_max_posts py data \<and> effective_max_posts py data \<le> 25"
  by (simp add: effective_max_posts_def)

text \<open>
  C3, as stated, at a float: the claim sends every non-integer \<open>max_posts\<close> to 5, and
  for \<open>{"max_posts": 7.5}\<close> the cap given to the harvest is 7.
\<close>

theorem max_posts_float_counterexample:
  "effective_max_posts plain_builtins (JObj [(''max_posts'', JFloat (15 / 2))]) = 7
   \<and> effective_max_posts plain_builtins (JObj [(''max_posts'', JFloat (15 / 2))]) \<noteq> 5"
  by (simp add: effective_max_posts_def requested_max_posts_def dict_get_def py_int_def floor_eq_iff)

text \<open>
  C3, amended: the cap given to the harvest is \<open>max_posts\<close> clamped to 1..25 when it is
  an integer, 5 when the field is absent; any other value goes through \<open>int()\<close> first: what
  \<open>int()\<close> converts (a float is truncated towards zero, a bool is 0 or 1, a numeric string is
  parsed) is clamped, and only what \<open>int()\<close> rejects falls back to 5. The cap is always in
  1..25 and no value is rejected.
\<close>

theorem effective_max_posts_clamps:
  assumes "dict_get data ''max_posts'' (JInt 5) = Inr v"
  shows "1 \<le> effective_max_posts py data \<and> effective_max_posts py data \<le> 25
     \<and> (\<forall>n. v = JInt n \<longrightarrow> effective_max_posts py data = max 1 (min n 25))
     \<and> (\<forall>n. py_int py v = Inr n \<longrightarrow> effective_max_posts py data = max 1 (min n 25))
     \<and> (\<forall>e. py_int py v = Inl e \<longrightarrow> effective_max_posts py data = 5)
     \<and> (map_of kvs ''max_posts'' = None \<longrightarrow> effective_max_posts py (JObj kvs) = 5)"
proof -
  have int_case: "\<And>n. v = JInt n \<Longrightarrow> effective_max_posts py data = max 1 (min n 25)"
    using assms by (simp add: effective_max_posts_def requested_max_posts_def py_int_def)
  have conv_case: "\<And>n. py_int py v = Inr n \<Longrightarrow> effective_max_posts py data = max 1 (min n 25)"
    using assms by (simp add: effective_max_posts_def requested_max_posts_def)
  have rej_case: "\<And>e. py_int py v = Inl e \<Longrightarrow> effective_max_posts py data = 5"
    using assms by (simp add: effective_max_posts_def requested_max_posts_def)
  have absent: "map_of kvs ''max_posts'' = None \<Longrightarrow> effective_max_posts py (JObj kvs) = 5"
    by (simp add: effective_max_posts_def requested_max_posts_def dict_get_def py_int_def)
  show ?thesis
    using int_case conv_case rej_case absent effective_max_posts_range [of py data] by blast
qed

theorem effective_max_posts_clamps_witness:
  "dict_get (JObj [(''max_posts'', JInt 100)]) ''max_posts'' (JInt 5) = Inr (JInt 100)
   \<and> effective_max_posts plain_builtins (JObj [(''max_posts'', JInt 100)]) = 25
   \<and> dict_get (JObj [(''max_posts'', JInt 0)]) ''max_posts'' (JInt 5) = Inr (JInt 0)
   \<and> effective_max_posts plain_builtins (JObj [(''max_posts'', JInt 0)]) = 1
   \<and> dict_get (JObj [(''max_posts'', JNull)]) ''max_posts'' (JInt 5) = Inr JNull
   \<and> py_int plain_builtins JNull = Inl TypeError
   \<and> effective_max_posts plain_builtins (JObj [(''max_posts'', JNull)]) = 5
   \<and> map_of [(''hashtag'', JStr ''jobs'')] ''max_posts'' = None
   \<and> effective_max_posts plain_builtins (JObj [(''hashtag'', JStr ''jobs'')]) = 5"
proof -
  have h100: "dict_get (JObj [(''max_posts'', JInt 100)]) ''max_posts'' (JInt 5) = Inr (JInt 100)"
    by (simp add: dict_get_def)
  have h0: "dict_get (JObj [(''max_posts'', JInt 0)]) ''max_posts'' (JInt 5) = Inr (JInt 0)"
    by (simp add: dict_get_def)
  have hnull: "dict_get (JObj [(''max_posts'', JNull)]) ''max_posts'' (JInt 5) = Inr JNull"
    by (simp add: dict_get_def)
  have rej: "py_int plain_builtins JNull = Inl TypeError"
    by (simp add: py_int_def)
  have absent: "map_of [(''hashtag'', JStr ''jobs'')] ''max_posts'' = None"
    by simp
  show ?thesis
    using h100 h0 hnull rej absent
      effective_max_posts_clamps [OF h100, of plain_builtins "[(''hashtag'', JStr ''jobs'')]"]
      effective_max_posts_clamps [OF h0, of plain_builtins "[]"]
      effective_max_posts_clamps [OF hnull, of plain_builtins "[]"]
    by simp
qed

section \<open>No credential token\<close>

lemma initialize_browser_no_token:
  "token_missing cfg \<Longrightarrow> driver s = None \<Longrightarrow> initialize_browser cfg w s = (Inr False, s)"
  by (simp add: initialize_browser_def)

lemma handle_no_token:
  "token_missing cfg \<Longrightarrow> driver s = None \<Longrightarrow> handle py cfg w rq s = Some (Inr init_failed, s)"
  by (cases "fst rq") (simp_all add: handle_def scrape_def comment_def initialize_browser_no_token)

lemma serve_no_token:
  "token_missing cfg \<Longrightarrow> driver s = None \<Longrightarrow>
     serve py cfg w rqs s = Some (map (\<lambda>rq. Inr init_failed) rqs, s)"
  by (induction rqs) (simp_all add: handle_no_token)

text \<open>
  C8: with no credential token configured, every request of a run, to either route, is
  answered 500 \<open>{"error": "browser init failed"}\<close>, and the state stays the initial one:
  no external call is ever made, so neither the harvest nor the comment sequence is entered.
\<close>

theorem no_token_every_request_fails:
  assumes "token_missing cfg"
  shows "serve py cfg w rqs initial_state = Some (map (\<lambda>rq. Inr init_failed) rqs, initial_state)
     \<and> init_failed = (500, JObj [(''error'', JStr ''browser init failed'')])"
  using assms serve_no_token [of cfg initial_state py w rqs]
  by (simp add: initial_state_def init_failed_def)

theorem no_token_every_request_fails_witness:
  "token_missing no_token
   \<and> serve plain_builtins no_token blank_world
        [(Scrape, Inr (JObj [(''hashtag'', JStr ''hiring'')])),
         (Comment, Inr (JObj [(''post_url'', JStr ''u''), (''comment'', JStr ''hi'')]))]
        initial_state
      = Some ([Inr (500, JObj [(''error'', JStr ''browser init failed'')]),
               Inr (500, JObj [(''error'', JStr ''browser init failed'')])], initial_state)"
proof -
  have h: "token_missing no_token"
    by (simp add: token_missing_def no_token_def)
  show ?thesis
    using h no_token_every_request_fails [OF h, of plain_builtins blank_world
        "[(Scrape, Inr (JObj [(''hashtag'', JStr ''hiring'')])),
          (Comment, Inr (JObj [(''post_url'', JStr ''u''), (''comment'', JStr ''hi'')]))]"]
    by simp
qed

section \<open>Steps that keep the globals\<close>

lemma kept_refl: "kept s s" by (simp add: kept_def)
lemma kept_trans: "kept s s1 \<Longrightarrow> kept s1 s2 \<Longrightarrow> kept s s2" by (simp add: kept_def)
lemma kept_advance: "kept s (advance w s)" by (simp add: kept_def advance_def)
lemma kept_external: "kept s (snd (external w s))"
  by (simp add: external_def kept_advance split: option.splits)
lemma kept_find_elements: "kept s (snd (find_elements w xp s))"
  by (simp add: find_elements_def kept_advance split: option.splits)
lemma kept_sleep: "kept s (snd (sleep ms s))"
  by (simp add: sleep_def kept_def)
lemma kept_sleep_uniform: "kept s (snd (sleep_uniform w lo hi s))"
  by (simp add: sleep_uniform_def kept_sleep)
lemma kept_return: "kept s (snd (io_return x s))"
  by (simp add: io_return_def kept_refl)
lemma kept_raise_or: "kept s (snd (raise_or r s))"
  by (simp add: raise_or_def kept_refl split: sum.splits)

lemma kept_bind:
  assumes "\<And>s. kept s (snd (m s))" "\<And>x s. kept s (snd (f x s))"
  shows "kept s (snd (io_bind m f s))"
proof (cases "m s")
  case (Pair r s1)
  have k1: "kept s s1" using assms(1) [of s] Pair by simp
  show ?thesis
  proof (cases r)
    case (Inl e)
    then show ?thesis using Pair k1 by (simp add: io_bind_def)
  next
    case (Inr x)
    have "kept s1 (snd (f x s1))" by (rule assms(2))
    then show ?thesis using Pair Inr k1 by (auto simp: io_bind_def intro: kept_trans)
  qed
qed

lemma kept_any_found: "kept s (snd (any_found w xps s))"
proof (induction xps arbitrary: s)
  case Nil show ?case by (simp add: kept_refl)
next
  case (Cons xp xps)
  show ?case
  proof (cases "find_elements w xp s")
    case (Pair r s1)
    have k1: "kept s s1" using kept_find_elements [of s w xp] Pair by simp
    show ?thesis using Pair k1 Cons.IH [of s1]
      by (auto split: sum.splits intro: kept_trans)
  qed
qed

lemma kept_first_matching: "kept s (snd (first_matching w xps s))"
proof (induction xps arbitrary: s)
  case Nil show ?case by (simp add: kept_refl)
next
  case (Cons xp xps)
  show ?case
  proof (cases "find_elements w xp s")
    case (Pair r s1)
    have k1: "kept s s1" using kept_find_elements [of s w xp] Pair by simp
    show ?thesis using Pair k1 Cons.IH [of s1]
      by (auto split: sum.splits intro: kept_trans)
  qed
qed

lemma kept_wait_loop: "kept s (snd (wait_loop w xps deadline s))"
proof (induction w xps deadline s rule: wait_loop.induct)
  case (1 w xpaths deadline s)
  show ?case
  proof (cases "now s < deadline")
    case False
    then show ?thesis by (subst wait_loop.simps) (simp add: kept_refl)
  next
    case True
    show ?thesis
    proof (cases "any_found w xpaths s")
      case (Pair r s1)
      have k1: "kept s s1" using kept_any_found [of s w xpaths] Pair by simp
      show ?thesis
      proof (cases r)
        case (Inl e)
        then show ?thesis using True Pair k1 by (subst wait_loop.simps) simp
      next
        case (Inr b)
        show ?thesis
        proof (cases b)
          case True
          then show ?thesis using \<open>now s < deadline\<close> Pair Inr k1 by (subst wait_loop.simps) simp
        next
          case False
          have "kept s1 (snd (sleep 500 s1))" by (rule kept_sleep)
          moreover have "kept (snd (sleep 500 s1)) (snd (wait_loop w xpaths deadline (snd (sleep 500 s1))))"
            using "1.IH" [of r s1 b] \<open>now s < deadline\<close> Pair Inr False by simp
          ultimately have "kept s (snd (wait_loop w xpaths deadline (snd (sleep 500 s1))))"
            using k1 by (blast intro: kept_trans)
          then show ?thesis
            using \<open>now s < deadline\<close> Pair Inr False by (subst wait_loop.simps) simp
        qed
      qed
    qed
  qed
qed

lemma kept_wait_for_any: "kept s (snd (wait_for_any w xps timeout s))"
  by (simp add: wait_for_any_def kept_wait_loop)

lemma kept_scroll_pass: "kept s (snd (scroll_pass w s))"
  unfolding scroll_pass_def
  by (intro kept_bind kept_external kept_sleep_uniform)

lemma kept_human_scroll: "kept s (snd (human_scroll w passes s))"
proof (induction passes arbitrary: s)
  case 0 show ?case by (simp add: kept_return)
next
  case (Suc passes)
  show ?case
    unfolding human_scroll.simps
    by (intro kept_bind kept_scroll_pass Suc.IH)
qed

lemma kept_open_feed: "kept s (snd (open_feed w hashtag s))"
  unfolding open_feed_def driver_get_def
  by (intro kept_bind kept_external kept_sleep kept_human_scroll kept_first_matching)

lemma kept_wait_until: "kept s (snd (wait_until w xp s))"
  by (auto simp: wait_until_def sleep_def kept_def advance_def kept_refl split: option.splits)

lemma kept_type_keys: "kept s (snd (type_keys w chs s))"
proof (induction chs arbitrary: s)
  case Nil show ?case by (simp add: kept_return)
next
  case (Cons ch chs)
  show ?case
    unfolding type_keys.simps send_keys_def
    by (intro kept_bind kept_external kept_sleep_uniform Cons.IH)
qed

lemma kept_submit_comment: "kept s (snd (submit_comment w data s))"
  unfolding submit_comment_def click_def
  by (intro kept_bind kept_external kept_wait_until kept_raise_or kept_type_keys kept_return)

section \<open>Sequencing and calm worlds\<close>

lemma io_bind_Inr: "m s = (Inr x, s1) \<Longrightarrow> io_bind m f s = f x s1"
  by (simp add: io_bind_def)

lemma io_bind_Inl: "m s = (Inl e, s1) \<Longrightarrow> io_bind m f s = (Inl e, s1)"
  by (simp add: io_bind_def)

lemma external_calm: "calm w \<Longrightarrow> external w s = (Inr (), advance w s)"
  by (simp add: external_def calm_def)

lemma find_elements_calm: "calm w \<Longrightarrow> find_elements w xp s = (Inr (elements w (tick s) xp), advance w s)"
  by (simp add: find_elements_def calm_def)

section \<open>The diagnostics dump\<close>

lemma dump_debug_log:
  "dumps (snd (dump_debug w tag s)) = dumps s @ [tag]
   \<and> driver (snd (dump_debug w tag s)) = driver s
   \<and> wait (snd (dump_debug w tag s)) = wait s"
proof (cases "driver s = None")
  case True
  then show ?thesis by (simp add: dump_debug_def)
next
  case False
  define s0 where "s0 = s\<lparr>dumps := dumps s @ [tag]\<rparr>"
  define m where "m = io_bind (external w) (\<lambda>_. io_bind (external w) (\<lambda>_. io_bind (external w) (\<lambda>_. external w)))"
  have "kept s0 (snd (m s0))"
    unfolding m_def by (intro kept_bind kept_external)
  moreover have "dump_debug w tag s = m s0"
    using False by (auto simp: dump_debug_def Let_def s0_def m_def)
  ultimately show ?thesis
    by (simp add: kept_def s0_def)
qed

lemma dump_debug_calm: "calm w \<Longrightarrow> fst (dump_debug w tag s) = Inr ()"
  by (simp add: dump_debug_def Let_def io_bind_def external_calm)

section \<open>Polling\<close>




lemma any_found_none:
  "calm w \<Longrightarrow> absent w xps \<Longrightarrow> fst (any_found w xps s) = Inr False"
  by (induction xps arbitrary: s) (simp_all add: find_elements_calm absent_def)

lemma wait_loop_none:
  "calm w \<Longrightarrow> absent w xps \<Longrightarrow>
     fst (wait_loop w xps deadline s) = Inr False"
proof (induction w xps deadline s rule: wait_loop.induct)
  case (1 w xpaths deadline s)
  show ?case
  proof (cases "now s < deadline")
    case False
    then show ?thesis by (subst wait_loop.simps) simp
  next
    case True
    obtain r s1 where af: "any_found w xpaths s = (r, s1)" by (cases "any_found w xpaths s")
    have r: "r = Inr False" using any_found_none [OF "1.prems", where s = s] af by simp
    have "fst (wait_loop w xpaths deadline (snd (sleep 500 s1))) = Inr False"
      using "1.IH" [of r s1 False] "1.prems" True af r by simp
    then show ?thesis using True af r by (subst wait_loop.simps) simp
  qed
qed

lemma wait_for_any_none:
  "calm w \<Longrightarrow> absent w xps \<Longrightarrow>
     fst (wait_for_any w xps timeout s) = Inr False"
  by (simp add: wait_for_any_def wait_loop_none)

lemma wait_for_any_at_once:
  "fails w (tick s) = None \<Longrightarrow> elements w (tick s) xp \<noteq> [] \<Longrightarrow> 0 < timeout \<Longrightarrow>
     wait_for_any w (xp # xps) timeout s = (Inr True, advance w s)"
  unfolding wait_for_any_def
  by (subst wait_loop.simps) (simp add: find_elements_def)



section \<open>State detection\<close>

lemma detect_login_refines: "detect_login w s = io_bind (detect_state w) (report w) s"
proof -
  obtain r1 s1 where a: "wait_for_any w LOGIN_OK 25000 s = (r1, s1)"
    by (cases "wait_for_any w LOGIN_OK 25000 s")
  obtain r2 s2 where c: "wait_for_any w CHECKPOINT 3000 s1 = (r2, s2)"
    by (cases "wait_for_any w CHECKPOINT 3000 s1")
  obtain r3 s3 where l: "wait_for_any w LOGIN_PAGE 3000 s2 = (r3, s3)"
    by (cases "wait_for_any w LOGIN_PAGE 3000 s2")
  show ?thesis
    using a c l
    by (simp add: detect_login_def detect_state_def report_def io_bind_def io_return_def
        split: sum.splits bool.splits)
qed

lemma kept_if: "kept s (snd (m s)) \<Longrightarrow> kept s (snd (n s)) \<Longrightarrow> kept s (snd ((if b then m else n) s))"
  by simp

lemma kept_detect_state: "kept s (snd (detect_state w s))"
  unfolding detect_state_def
  by (intro kept_bind kept_if kept_wait_for_any kept_return)



lemma open_session_calm:
  assumes "calm w"
  shows "fst (open_session cfg w s) = Inr ()"
    and "driver (snd (open_session cfg w s)) = Some (tick s)"
    and "wait (snd (open_session cfg w s)) = Some 25000"
    and "dumps (snd (open_session cfg w s)) = dumps s"
    and "tick (snd (open_session cfg w s)) = tick s + 4"
  using assms
  by (simp_all add: open_session_def launch_def driver_get_def add_cookie_def external_def
      sleep_def io_bind_def advance_def calm_def)

lemma initialize_browser_fresh:
  assumes fresh: "driver s = None" and token: "\<not> token_missing cfg" and c: "calm w"
    and st: "fst (detect_state w (snd (open_session cfg w s))) = Inr st"
  shows "fst (initialize_browser cfg w s) = Inr (st = Authenticated)"
    and "dumps (snd (initialize_browser cfg w s)) = dumps s @ (if st = Authenticated then [] else [tag_of st])"
    and "driver (snd (initialize_browser cfg w s)) = Some (tick s)"
    and "wait (snd (initialize_browser cfg w s)) = Some 25000"
proof -
  obtain s0 where os: "open_session cfg w s = (Inr (), s0)"
    using open_session_calm(1) [OF c, of cfg s] by (cases "open_session cfg w s") simp
  have s0: "driver s0 = Some (tick s)" "wait s0 = Some 25000" "dumps s0 = dumps s"
    using open_session_calm(2,3,4) [OF c, of cfg s] os by simp_all
  obtain s1 where ds: "detect_state w s0 = (Inr st, s1)"
    using st os by (cases "detect_state w s0") simp
  have k: "kept s0 s1" using kept_detect_state [of s0 w] ds by simp
  have start: "start_session cfg w s = report w st s1"
    using os ds by (simp add: start_session_def detect_login_refines io_bind_def)
  have init: "initialize_browser cfg w s = try_except (start_session cfg w) (\<lambda>e. True)
             (io_bind (dump_debug w ''init_failed'') (\<lambda>_. io_return False)) s"
    using fresh token by (simp add: initialize_browser_def)
  have all: "fst (initialize_browser cfg w s) = Inr (st = Authenticated)
    \<and> dumps (snd (initialize_browser cfg w s)) = dumps s @ (if st = Authenticated then [] else [tag_of st])
    \<and> driver (snd (initialize_browser cfg w s)) = Some (tick s)
    \<and> wait (snd (initialize_browser cfg w s)) = Some 25000"
  proof (cases "st = Authenticated")
    case True
    then have r: "initialize_browser cfg w s = (Inr True, s1)"
      using init start by (simp add: try_except_def report_def io_return_def)
    show ?thesis
      using r True k s0 by (simp add: kept_def)
  next
    case False
    obtain s2 where d: "dump_debug w (tag_of st) s1 = (Inr (), s2)"
      using dump_debug_calm [OF c, of "tag_of st" s1] by (cases "dump_debug w (tag_of st) s1") simp
    have s2: "dumps s2 = dumps s1 @ [tag_of st]" "driver s2 = driver s1" "wait s2 = wait s1"
      using dump_debug_log [of w "tag_of st" s1] d by simp_all
    have r: "initialize_browser cfg w s = (Inr False, s2)"
      using init start False d by (simp add: try_except_def report_def io_return_def io_bind_def)
    show ?thesis
      using r False k s0 s2 by (simp add: kept_def)
  qed
  show "fst (initialize_browser cfg w s) = Inr (st = Authenticated)"
    and "dumps (snd (initialize_browser cfg w s)) = dumps s @ (if st = Authenticated then [] else [tag_of st])"
    and "driver (snd (initialize_browser cfg w s)) = Some (tick s)"
    and "wait (snd (initialize_browser cfg w s)) = Some 25000"
    using all by simp_all
qed

lemma calm_blank [simp]: "calm blank_world" "calm busy_world" "calm checkpoint_world"
  by (simp_all add: calm_def blank_world_def busy_world_def checkpoint_world_def)

lemma login_not_checkpoint: "absent checkpoint_world LOGIN_OK"
  by (simp add: absent_def checkpoint_world_def LOGIN_OK_def CHECKPOINT_def)

lemma checkpoint_detected:
  "fst (detect_state checkpoint_world s) = Inr CheckpointChallenge"
proof -
  obtain r1 s1 where a: "wait_for_any checkpoint_world LOGIN_OK 25000 s = (r1, s1)"
    by (cases "wait_for_any checkpoint_world LOGIN_OK 25000 s")
  have r1: "r1 = Inr False"
    using wait_for_any_none [OF calm_blank(3) login_not_checkpoint, of 25000 s] a by simp
  have "wait_for_any checkpoint_world CHECKPOINT 3000 s1 = (Inr True, advance checkpoint_world s1)"
    unfolding CHECKPOINT_def
    by (rule wait_for_any_at_once) (simp_all add: checkpoint_world_def blank_world_def CHECKPOINT_def)
  then show ?thesis
    using a r1 by (simp add: detect_state_def io_bind_def io_return_def)
qed




text \<open>
  C1, where the code departs from it: a first call launches the session, detects the
  checkpoint challenge, dumps and returns false; the second call finds \<open>driver\<close> set
  and returns true at once, on the same state, with no launch, no cookie and no detection.
\<close>

theorem second_call_after_checkpoint:
  "fst (initialize_browser with_token checkpoint_world initial_state) = Inr False
   \<and> dumps (snd (initialize_browser with_token checkpoint_world initial_state)) = [''checkpoint'']
   \<and> initialize_browser with_token checkpoint_world
        (snd (initialize_browser with_token checkpoint_world initial_state))
      = (Inr True, snd (initialize_browser with_token checkpoint_world initial_state))"
proof -
  have fresh: "driver initial_state = None" by (simp add: initial_state_def)
  have token: "\<not> token_missing with_token" by (simp add: token_missing_def with_token_def)
  note first = initialize_browser_fresh [OF fresh token calm_blank(3) checkpoint_detected]
  have "driver (snd (initialize_browser with_token checkpoint_world initial_state)) \<noteq> None"
    using first(3) by simp
  then have "initialize_browser with_token checkpoint_world
        (snd (initialize_browser with_token checkpoint_world initial_state))
      = (Inr True, snd (initialize_browser with_token checkpoint_world initial_state))"
    by (simp add: initialize_browser_def)
  then show ?thesis
    using first(1,2) by (simp add: initial_state_def)
qed

section \<open>The harvest\<close>

subsection \<open>First-seen order\<close>

lemma urn_set_Nil: "urn_set [] = {}"
  by (simp add: urn_set_def)

lemma urn_set_Cons:
  "urn_set (c # cs) =
     (case data_urn c of None \<Rightarrow> {} | Some urn \<Rightarrow> if urn = [] then {} else {urn}) \<union> urn_set cs"
  by (auto simp: urn_set_def split: option.splits)

lemma urn_set_append: "urn_set (xs @ ys) = urn_set xs \<union> urn_set ys"
  by (auto simp: urn_set_def)

lemma first_seen_append:
  "first_seen seen (xs @ ys) = first_seen seen xs @ first_seen (seen \<union> urn_set xs) ys"
proof (induction xs arbitrary: seen)
  case Nil
  show ?case by (simp add: urn_set_Nil)
next
  case (Cons c cs)
  show ?case
  proof (cases "data_urn c")
    case None
    then show ?thesis using Cons.IH [of seen] by (simp add: urn_set_Cons)
  next
    case (Some urn)
    show ?thesis
    proof (cases "urn = [] \<or> urn \<in> seen")
      case True
      then have "seen \<union> urn_set (c # cs) = seen \<union> urn_set cs"
        using Some by (auto simp: urn_set_Cons)
      then show ?thesis using Some True Cons.IH [of seen] by simp
    next
      case False
      then have "seen \<union> urn_set (c # cs) = insert urn seen \<union> urn_set cs"
        using Some by (auto simp: urn_set_Cons)
      then show ?thesis using Some False Cons.IH [of "insert urn seen"] by simp
    qed
  qed
qed

lemma canonical_url_inj: "canonical_url a = canonical_url b \<Longrightarrow> a = b"
  by (simp add: canonical_url_def)

lemma first_seen_urls:
  "set (map post_url (first_seen seen cs)) \<subseteq> canonical_url ` (urn_set cs - seen)
   \<and> distinct (map post_url (first_seen seen cs))"
proof (induction cs arbitrary: seen)
  case Nil
  show ?case by simp
next
  case (Cons c cs)
  show ?case
  proof (cases "data_urn c")
    case None
    then show ?thesis using Cons.IH [of seen] by (simp add: urn_set_Cons)
  next
    case (Some urn)
    show ?thesis
    proof (cases "urn = [] \<or> urn \<in> seen")
      case True
      then show ?thesis using Some Cons.IH [of seen] by (auto simp: urn_set_Cons)
    next
      case False
      have ih: "set (map post_url (first_seen (insert urn seen) cs)) \<subseteq> canonical_url ` (urn_set cs - insert urn seen)"
        and d: "distinct (map post_url (first_seen (insert urn seen) cs))"
        using Cons.IH [of "insert urn seen"] by simp_all
      have fresh: "canonical_url urn \<notin> set (map post_url (first_seen (insert urn seen) cs))"
      proof
        assume "canonical_url urn \<in> set (map post_url (first_seen (insert urn seen) cs))"
        then obtain u where "u \<in> urn_set cs - insert urn seen" "canonical_url urn = canonical_url u"
          using ih by blast
        then show False using canonical_url_inj by blast
      qed
      have sub: "canonical_url ` (urn_set cs - insert urn seen) \<subseteq> canonical_url ` (urn_set (c # cs) - seen)"
        by (auto simp: urn_set_Cons)
      have head: "canonical_url urn \<in> canonical_url ` (urn_set (c # cs) - seen)"
        using Some False by (auto simp: urn_set_Cons)
      show ?thesis
        using Some False ih d fresh sub head by (auto simp: make_post_def)
    qed
  qed
qed

lemma collect_first_seen:
  assumes "int (length posts) < max_posts"
  shows "fst (collect max_posts cs (posts, seen))
           = posts @ take (nat max_posts - length posts) (first_seen seen cs)
     \<and> (int (length (fst (collect max_posts cs (posts, seen)))) < max_posts \<longrightarrow>
          snd (collect max_posts cs (posts, seen)) = seen \<union> urn_set cs)"
  using assms
proof (induction cs arbitrary: posts seen)
  case Nil
  show ?case by (simp add: urn_set_Nil)
next
  case (Cons c cs)
  show ?case
  proof (cases "data_urn c")
    case None
    then show ?thesis using Cons.IH [OF Cons.prems, of seen] by (simp add: urn_set_Cons)
  next
    case (Some urn)
    show ?thesis
    proof (cases "urn = [] \<or> urn \<in> seen")
      case True
      then have "seen \<union> urn_set (c # cs) = seen \<union> urn_set cs"
        using Some by (auto simp: urn_set_Cons)
      then show ?thesis using Some True Cons.IH [OF Cons.prems, of seen] by simp
    next
      case False
      have u: "seen \<union> urn_set (c # cs) = insert urn seen \<union> urn_set cs"
        using Some False by (auto simp: urn_set_Cons)
      show ?thesis
      proof (cases "max_posts \<le> int (length posts) + 1")
        case True
        then have "nat max_posts - length posts = 1"
          using Cons.prems by linarith
        then show ?thesis using Some False True by simp
      next
        case full: False
        then have lt: "int (length (posts @ [make_post c urn])) < max_posts" by simp
        have k: "nat max_posts - length posts = Suc (nat max_posts - length (posts @ [make_post c urn]))"
          using full by simp
        show ?thesis
          using Some False full u k Cons.IH [OF lt, of "insert urn seen"] by simp
      qed
    qed
  qed
qed

subsection \<open>The passes of the loop\<close>

lemma encounters_0: "encounters w xp t 0 = []"
  by (simp add: encounters_def)

lemma encounters_Suc: "encounters w xp t (Suc n) = elements w t xp @ encounters w xp (t + 3) n"
proof -
  have "[0..<Suc n] = 0 # map Suc [0..<n]"
    by (simp add: upt_conv_Cons map_Suc_upt del: upt_Suc)
  then have "map (\<lambda>k. elements w (t + 3 * k) xp) [0..<Suc n]
      = elements w t xp # map (\<lambda>k. elements w (t + 3 + 3 * k) xp) [0..<n]"
    by (simp add: comp_def add.assoc del: upt_Suc)
  then show ?thesis
    by (simp add: encounters_def del: upt_Suc)
qed

lemma find_elements_Inr:
  "find_elements w xp s = (Inr cards, s1) \<Longrightarrow> cards = elements w (tick s) xp \<and> tick s1 = tick s + 1"
  by (auto simp: find_elements_def advance_def split: option.splits)

lemma external_tick: "tick (snd (external w s)) = tick s + 1"
  by (simp add: external_def advance_def split: option.splits)

lemma scroll_pass_tick: "scroll_pass w s = (Inr u, s2) \<Longrightarrow> tick s2 = tick s + 2"
  by (auto simp: scroll_pass_def io_bind_def external_def advance_def sleep_uniform_def sleep_def
      split: option.splits)

lemma human_scroll_1_tick: "human_scroll w 1 s = (Inr u, s2) \<Longrightarrow> tick s2 = tick s + 2"
proof -
  assume a: "human_scroll w 1 s = (Inr u, s2)"
  have "human_scroll w 1 = io_bind (scroll_pass w) (\<lambda>_. io_return ())"
    by (simp add: numeral_nat(7))
  then have "scroll_pass w s = (Inr (), s2)"
    using a by (auto simp: io_bind_def io_return_def split: prod.splits sum.splits)
  then show ?thesis by (rule scroll_pass_tick)
qed

lemma in_order_collect:
  assumes inv: "in_order max_posts acc enc" and lt: "int (length (fst acc)) < max_posts"
  shows "in_order max_posts (collect max_posts cards acc) (enc @ cards)"
proof -
  obtain posts seen where acc: "acc = (posts, seen)" by (cases acc)
  have "snd acc = urn_set enc \<and> fst acc = first_seen {} enc"
    using inv lt unfolding in_order_def by blast
  then have p: "first_seen {} enc = posts" and s: "urn_set enc = seen"
    unfolding acc by simp_all
  have lt': "int (length posts) < max_posts"
    using lt unfolding acc by simp
  define r where "r = collect max_posts cards (posts, seen)"
  have c1: "fst r = posts @ take (nat max_posts - length posts) (first_seen seen cards)"
    and c2: "int (length (fst r)) < max_posts \<longrightarrow> snd r = seen \<union> urn_set cards"
    using collect_first_seen [OF lt', of cards seen] unfolding r_def by blast+
  have fs: "first_seen {} (enc @ cards) = posts @ first_seen seen cards"
    unfolding first_seen_append [of "{}" enc cards] p s by simp
  have len: "length posts < nat max_posts"
    using lt' by linarith
  have a: "fst r = take (nat max_posts) (first_seen {} (enc @ cards))"
    unfolding fs c1 using len by simp
  have b: "int (length (fst r)) < max_posts \<longrightarrow>
      snd r = urn_set (enc @ cards) \<and> fst r = first_seen {} (enc @ cards)"
  proof
    assume l: "int (length (fst r)) < max_posts"
    have "snd r = urn_set (enc @ cards)"
      using c2 l unfolding urn_set_append s by blast
    moreover have "fst r = first_seen {} (enc @ cards)"
    proof -
      have "length (take (nat max_posts) (first_seen {} (enc @ cards))) < nat max_posts"
        using l unfolding a by linarith
      then have "length (first_seen {} (enc @ cards)) < nat max_posts"
        by (simp add: min_def split: if_splits)
      then show ?thesis unfolding a by simp
    qed
    ultimately show "snd r = urn_set (enc @ cards) \<and> fst r = first_seen {} (enc @ cards)"
      by blast
  qed
  show ?thesis
    unfolding in_order_def acc r_def [symmetric] using a b by blast
qed

lemma in_order_start: "in_order max_posts ([], {}) []"
  by (simp add: in_order_def urn_set_Nil)

lemma harvest_loop_in_order_all:
  assumes "harvest_loop w xp max_posts acc s = Some y"
  shows "\<forall>enc posts s'. in_order max_posts acc enc \<longrightarrow> y = (Inr posts, s') \<longrightarrow>
     (\<exists>n. tick s' = tick s + 3 * n
       \<and> posts = take (nat max_posts) (first_seen {} (enc @ encounters w xp (tick s) n)))"
proof (rule harvest_loop.raw_induct [OF _ assms], goal_cases)
  case (1 loop w xp max_posts acc s y)
  note IH = 1(1) and eq = 1(2)
  show ?case
  proof (intro allI impI)
    fix enc posts s'
    assume inv0: "in_order max_posts acc enc" and y: "y = (Inr posts, s')"
    show "\<exists>n. tick s' = tick s + 3 * n
       \<and> posts = take (nat max_posts) (first_seen {} (enc @ encounters w xp (tick s) n))"
    proof (cases "int (length (fst acc)) < max_posts")
      case False
      then have "y = (Inr (fst acc), s)" using eq by simp
      then have "posts = fst acc" "s' = s" using y by simp_all
      moreover have "fst acc = take (nat max_posts) (first_seen {} enc)"
        using inv0 unfolding in_order_def by blast
      ultimately have "tick s' = tick s + 3 * 0
          \<and> posts = take (nat max_posts) (first_seen {} (enc @ encounters w xp (tick s) 0))"
        by (simp add: encounters_0)
      then show ?thesis by blast
    next
      case True
      obtain r1 s1 where f: "find_elements w xp s = (r1, s1)" by (cases "find_elements w xp s")
      show ?thesis
      proof (cases r1)
        case (Inl e)
        then have "y = (Inl e, s1)" using eq True f by simp
        then show ?thesis using y by simp
      next
        case (Inr cards)
        have cards: "cards = elements w (tick s) xp" and t1: "tick s1 = tick s + 1"
          using find_elements_Inr [of w xp s cards s1] f Inr by simp_all
        obtain r2 s2 where h: "human_scroll w 1 s1 = (r2, s2)" by (cases "human_scroll w 1 s1")
        show ?thesis
        proof (cases r2)
          case (Inl e)
          then have "y = (Inl e, s2)" using eq True f Inr h by simp
          then show ?thesis using y by simp
        next
          case inr2: (Inr u)
          have t2: "tick s2 = tick s + 3"
            using human_scroll_1_tick [of w s1 u s2] h inr2 t1 by simp
          have rec: "loop w xp max_posts (collect max_posts cards acc) s2 = Some y"
            using eq True f Inr h inr2 by simp
          have inv: "in_order max_posts (collect max_posts cards acc) (enc @ cards)"
            using in_order_collect [OF inv0 True] .
          obtain n where n: "tick s' = tick s2 + 3 * n"
            "posts = take (nat max_posts) (first_seen {} ((enc @ cards) @ encounters w xp (tick s2) n))"
            using IH [OF rec] inv y by blast
          have "tick s' = tick s + 3 * Suc n
            \<and> posts = take (nat max_posts) (first_seen {} (enc @ encounters w xp (tick s) (Suc n)))"
            using n t2 cards by (simp add: encounters_Suc)
          then show ?thesis by blast
        qed
      qed
    qed
  qed
qed

lemma harvest_loop_in_order:
  assumes "harvest_loop w xp max_posts acc s = Some (Inr posts, s')" and "in_order max_posts acc enc"
  shows "\<exists>n. tick s' = tick s + 3 * n
       \<and> posts = take (nat max_posts) (first_seen {} (enc @ encounters w xp (tick s) n))"
  using harvest_loop_in_order_all [OF assms(1)] assms(2) by blast

lemma harvest_loop_full_all:
  assumes "harvest_loop w xp max_posts acc s = Some y"
  shows "\<forall>posts s'. y = (Inr posts, s') \<longrightarrow> max_posts \<le> int (length posts)"
proof (rule harvest_loop.raw_induct [OF _ assms], goal_cases)
  case (1 loop w xp max_posts acc s y)
  note IH = 1(1) and eq = 1(2)
  show ?case
  proof (cases "int (length (fst acc)) < max_posts")
    case False
    then show ?thesis using eq by auto
  next
    case True
    obtain r1 s1 where f: "find_elements w xp s = (r1, s1)" by (cases "find_elements w xp s")
    show ?thesis
    proof (cases r1)
      case (Inl e)
      then show ?thesis using eq True f by auto
    next
      case (Inr cards)
      obtain r2 s2 where h: "human_scroll w 1 s1 = (r2, s2)" by (cases "human_scroll w 1 s1")
      show ?thesis
      proof (cases r2)
        case (Inl e)
        then show ?thesis using eq True f Inr h by auto
      next
        case inr2: (Inr u)
        have "loop w xp max_posts (collect max_posts cards acc) s2 = Some y"
          using eq True f Inr h inr2 by simp
        then show ?thesis by (rule IH)
      qed
    qed
  qed
qed

lemma harvest_loop_full:
  "harvest_loop w xp max_posts acc s = Some (Inr posts, s') \<Longrightarrow> max_posts \<le> int (length posts)"
  using harvest_loop_full_all by blast

subsection \<open>Runs that never leave the loop\<close>

lemma stalled_collect:
  "urn_set cs \<subseteq> ids \<Longrightarrow> stalled ids (posts, seen) \<Longrightarrow> stalled ids (collect max_posts cs (posts, seen))"
proof (induction cs arbitrary: posts seen)
  case Nil
  then show ?case by simp
next
  case (Cons c cs)
  have sub: "urn_set cs \<subseteq> ids" using Cons.prems(1) by (auto simp: urn_set_Cons)
  show ?case
  proof (cases "data_urn c")
    case None
    then show ?thesis using Cons.IH [OF sub Cons.prems(2)] by simp
  next
    case (Some urn)
    show ?thesis
    proof (cases "urn = [] \<or> urn \<in> seen")
      case True
      then show ?thesis using Some Cons.IH [OF sub Cons.prems(2)] by simp
    next
      case False
      have "urn \<in> ids" using Cons.prems(1) Some False by (auto simp: urn_set_Cons)
      then have st: "stalled ids (posts @ [make_post c urn], insert urn seen)"
        using Cons.prems(2) False by (simp add: stalled_def)
      show ?thesis
        using Some False st Cons.IH [OF sub st] by simp
    qed
  qed
qed

lemma harvest_loop_stalled:
  assumes "harvest_loop w xp max_posts acc s = Some y"
  shows "\<not> (calm w \<and> finite ids \<and> (\<forall>t. urn_set (elements w t xp) \<subseteq> ids)
     \<and> int (card ids) < max_posts \<and> stalled ids acc)"
proof (rule harvest_loop.raw_induct [OF _ assms], goal_cases)
  case (1 loop w xp max_posts acc s y)
  note IH = 1(1) and eq = 1(2)
  show ?case
  proof
    assume a: "calm w \<and> finite ids \<and> (\<forall>t. urn_set (elements w t xp) \<subseteq> ids)
       \<and> int (card ids) < max_posts \<and> stalled ids acc"
    have "card (snd acc) \<le> card ids"
      using a by (simp add: stalled_def card_mono)
    then have lt: "int (length (fst acc)) < max_posts"
      using a by (simp add: stalled_def)
    have f: "find_elements w xp s = (Inr (elements w (tick s) xp), advance w s)"
      using a by (simp add: find_elements_def calm_def)
    obtain s2 where h: "human_scroll w 1 (advance w s) = (Inr (), s2)"
      using a
      by (simp add: numeral_nat(7) scroll_pass_def io_bind_def io_return_def external_def calm_def
          sleep_uniform_def sleep_def)
    have rec: "loop w xp max_posts (collect max_posts (elements w (tick s) xp) acc) s2 = Some y"
      using eq lt f h by simp
    have st: "stalled ids (collect max_posts (elements w (tick s) xp) acc)"
      using stalled_collect [of "elements w (tick s) xp" ids "fst acc" "snd acc" max_posts] a
      by simp
    show False
      using IH [OF rec] a st by blast
  qed
qed

text \<open>
  C5: when no external call fails and the identifiers the chosen locator ever renders are
  fewer than the cap, the harvest loop never returns: nothing bounds the number of passes.
\<close>

theorem harvest_loop_never_returns:
  assumes "calm w" and "finite ids" and "\<forall>t. urn_set (elements w t xp) \<subseteq> ids"
    and "int (card ids) < max_posts"
  shows "harvest_loop w xp max_posts ([], {}) s = None"
proof (cases "harvest_loop w xp max_posts ([], {}) s")
  case None
  then show ?thesis .
next
  case (Some y)
  have "stalled ids ([], {})" by (simp add: stalled_def)
  then have False
    using harvest_loop_stalled [OF Some, of ids] assms by blast
  then show ?thesis ..
qed

lemma first_matching_Some:
  "first_matching w xps s = (Inr (Some xp), s') \<Longrightarrow> xp \<in> set xps"
proof (induction xps arbitrary: s)
  case Nil
  then show ?case by simp
next
  case (Cons x xps)
  obtain r s1 where f: "find_elements w x s = (r, s1)" by (cases "find_elements w x s")
  show ?case
  proof (cases r)
    case (Inl e)
    then show ?thesis using Cons.prems f by simp
  next
    case (Inr found)
    show ?thesis
    proof (cases "found = []")
      case True
      then have "first_matching w xps s1 = (Inr (Some xp), s')"
        using Cons.prems f Inr by simp
      then show ?thesis using Cons.IH by simp
    next
      case False
      then show ?thesis using Cons.prems f Inr by simp
    qed
  qed
qed

lemma open_feed_Some:
  assumes "open_feed w hashtag s = (Inr (Some xp), s1)"
  shows "xp \<in> set POST_CONTAINER_XPATHS \<and> tick s \<le> tick s1"
proof -
  have "kept s s1" using kept_open_feed [of s w hashtag] assms by simp
  then have t: "tick s \<le> tick s1" by (simp add: kept_def)
  obtain s0 where "first_matching w POST_CONTAINER_XPATHS s0 = (Inr (Some xp), s1)"
    using assms
    by (auto simp: open_feed_def io_bind_def split: prod.splits sum.splits)
  then show ?thesis using first_matching_Some t by blast
qed

lemma slice_to_take: "slice_to n (take (nat n) xs) = take (nat n) xs"
  by (simp add: slice_to_def)

text \<open>
  C2: whatever \<open>scrape_hashtag\<close> returns, no two posts have the same url (the url is
  the identifier between a fixed prefix and a slash, so no two share an identifier), there
  are at most \<open>max_posts\<close> of them, and they are in first-seen order: the list is the
  first-seen posts of the cards the passes enumerated, cut at the cap, never re-sorted.
\<close>

theorem harvest_result_first_seen:
  assumes "scrape_hashtag w hashtag max_posts s = Some (Inr posts, s')"
  shows "distinct (map post_url posts) \<and> length posts \<le> nat max_posts
     \<and> (posts = [] \<or>
         (\<exists>xp \<in> set POST_CONTAINER_XPATHS. \<exists>t n. tick s \<le> t \<and> t + 3 * n = tick s'
            \<and> posts = take (nat max_posts) (first_seen {} (encounters w xp t n))))"
proof -
  obtain r s1 where o: "open_feed w hashtag s = (r, s1)" by (cases "open_feed w hashtag s")
  show ?thesis
  proof (cases r)
    case (Inl e)
    then show ?thesis using assms o by (simp add: scrape_hashtag_def)
  next
    case (Inr chosen)
    show ?thesis
    proof (cases chosen)
      case None
      then have "io_bind (dump_debug w ''no_posts'') (\<lambda>_. io_return []) s1 = (Inr posts, s')"
        using assms o Inr by (simp add: scrape_hashtag_def)
      then have "posts = []"
        by (auto simp: io_bind_def io_return_def split: prod.splits sum.splits)
      then show ?thesis by simp
    next
      case (Some xp)
      have xp: "xp \<in> set POST_CONTAINER_XPATHS" and t: "tick s \<le> tick s1"
        using open_feed_Some [of w hashtag s xp s1] o Inr Some by simp_all
      obtain lp where l: "harvest_loop w xp max_posts ([], {}) s1 = Some (Inr lp, s')"
        and p: "posts = slice_to max_posts lp"
        using assms o Inr Some
        by (auto simp: scrape_hashtag_def split: option.splits prod.splits sum.splits)
      obtain n where n: "tick s' = tick s1 + 3 * n"
        and lp: "lp = take (nat max_posts) (first_seen {} (encounters w xp (tick s1) n))"
        using harvest_loop_in_order [OF l in_order_start] by auto
      have posts: "posts = take (nat max_posts) (first_seen {} (encounters w xp (tick s1) n))"
        using p lp slice_to_take by simp
      have "distinct (map post_url (first_seen {} (encounters w xp (tick s1) n)))"
        using first_seen_urls by blast
      then have d: "distinct (map post_url posts)"
        unfolding posts take_map [symmetric] by (rule distinct_take)
      have len: "length posts \<le> nat max_posts"
        unfolding posts by simp
      show ?thesis
        using d len xp t n posts by auto
    qed
  qed
qed

lemma busy_open_feed:
  "open_feed busy_world hashtag s = (Inr (Some (hd POST_CONTAINER_XPATHS)), snd (open_feed busy_world hashtag s))"
  by (simp add: open_feed_def driver_get_def io_bind_def io_return_def external_def sleep_def
      sleep_uniform_def scroll_pass_def numeral_2_eq_2 find_elements_def POST_CONTAINER_XPATHS_def
      busy_world_def blank_world_def)

lemma feed_open:
  "open_feed feed_world ''hiring'' initial_state
     = (Inr (Some (hd POST_CONTAINER_XPATHS)),
        \<lparr>driver = None, wait = None, tick = 6, now = 9000, dumps = []\<rparr>)"
  by (simp add: open_feed_def driver_get_def io_bind_def io_return_def external_def sleep_def
      sleep_uniform_def scroll_pass_def numeral_2_eq_2 find_elements_def POST_CONTAINER_XPATHS_def
      feed_world_def feed_cards_def blank_world_def initial_state_def advance_def)

lemma feed_loop:
  "harvest_loop feed_world xp 5 ([], {}) \<lparr>driver = None, wait = None, tick = 6, now = 9000, dumps = []\<rparr>
     = Some (Inr (map (\<lambda>u. \<lparr>post_author = [], post_text = [], post_url = canonical_url u\<rparr>)
                    [''u1'', ''u2'', ''u3'', ''u4'', ''u5'']),
             \<lparr>driver = None, wait = None, tick = 9, now = 12000, dumps = []\<rparr>)"
  apply (subst harvest_loop.simps)
  apply (simp add: find_elements_def feed_world_def blank_world_def feed_cards_def numbered_def
      make_post_def first_text_def advance_def scroll_pass_def io_bind_def io_return_def
      external_def sleep_uniform_def sleep_def AUTHOR_XPATHS_def TEXT_XPATHS_def)
  apply (subst harvest_loop.simps)
  apply simp
  done

lemma feed_run:
  "scrape_hashtag feed_world ''hiring'' 5 initial_state
     = Some (Inr (map (\<lambda>u. \<lparr>post_author = [], post_text = [], post_url = canonical_url u\<rparr>)
                    [''u1'', ''u2'', ''u3'', ''u4'', ''u5'']),
             \<lparr>driver = None, wait = None, tick = 9, now = 12000, dumps = []\<rparr>)"
  by (simp add: scrape_hashtag_def feed_open feed_loop slice_to_def)

theorem harvest_result_first_seen_witness:
  "scrape_hashtag feed_world ''hiring'' 5 initial_state
     = Some (Inr (map (\<lambda>u. \<lparr>post_author = [], post_text = [], post_url = canonical_url u\<rparr>)
                    [''u1'', ''u2'', ''u3'', ''u4'', ''u5'']),
             \<lparr>driver = None, wait = None, tick = 9, now = 12000, dumps = []\<rparr>)
   \<and> distinct (map canonical_url [''u1'', ''u2'', ''u3'', ''u4'', ''u5''])
   \<and> length [''u1'', ''u2'', ''u3'', ''u4'', ''u5''] \<le> nat 5"
  using feed_run harvest_result_first_seen [OF feed_run]
  by (simp add: comp_def)

lemma busy_urns: "\<forall>t. urn_set (elements busy_world t xp) \<subseteq> {''urn:li:activity:1''}"
  by (auto simp: busy_world_def urn_set_def a_card_def)

theorem harvest_loop_never_returns_witness:
  "calm busy_world \<and> finite {''urn:li:activity:1''}
   \<and> (\<forall>t. urn_set (elements busy_world t (hd POST_CONTAINER_XPATHS)) \<subseteq> {''urn:li:activity:1''})
   \<and> int (card {''urn:li:activity:1''}) < 2
   \<and> elements busy_world 0 (hd POST_CONTAINER_XPATHS) \<noteq> []
   \<and> harvest_loop busy_world (hd POST_CONTAINER_XPATHS) 2 ([], {}) initial_state = None
   \<and> scrape_hashtag busy_world ''hiring'' 2 initial_state = None"
proof -
  have c: "calm busy_world" by simp
  have f: "finite {''urn:li:activity:1''}" by simp
  have k: "int (card {''urn:li:activity:1''}) < 2" by simp
  have shown: "elements busy_world 0 (hd POST_CONTAINER_XPATHS) \<noteq> []"
    by (simp add: busy_world_def)
  have "scrape_hashtag busy_world ''hiring'' 2 initial_state
      = (case harvest_loop busy_world (hd POST_CONTAINER_XPATHS) 2 ([], {})
                (snd (open_feed busy_world ''hiring'' initial_state)) of
           None \<Rightarrow> None
         | Some (Inl e, s2) \<Rightarrow> Some (Inl e, s2)
         | Some (Inr posts, s2) \<Rightarrow> Some (Inr (slice_to 2 posts), s2))"
    by (subst scrape_hashtag_def, subst busy_open_feed) simp
  then show ?thesis
    using c f k shown busy_urns [of "hd POST_CONTAINER_XPATHS"]
      harvest_loop_never_returns [OF c f busy_urns k, of "hd POST_CONTAINER_XPATHS" initial_state]
      harvest_loop_never_returns [OF c f busy_urns k, of "hd POST_CONTAINER_XPATHS"
        "snd (open_feed busy_world ''hiring'' initial_state)"]
    by simp
qed

section \<open>No posts found\<close>








lemma calm_signed_in [simp]: "calm signed_in_world"
  by (simp add: calm_def signed_in_world_def blank_world_def)

lemma signed_in_detected: "fst (detect_state signed_in_world s) = Inr Authenticated"
proof -
  have "wait_for_any signed_in_world LOGIN_OK 25000 s = (Inr True, advance signed_in_world s)"
    unfolding LOGIN_OK_def
    by (rule wait_for_any_at_once) (simp_all add: signed_in_world_def blank_world_def LOGIN_OK_def)
  then show ?thesis
    by (simp add: detect_state_def io_bind_def io_return_def)
qed


lemma signed_in_init: "fst (initialize_browser with_token signed_in_world initial_state) = Inr True"
proof -
  have fresh: "driver initial_state = None" by (simp add: initial_state_def)
  have token: "\<not> token_missing with_token" by (simp add: token_missing_def with_token_def)
  show ?thesis
    using initialize_browser_fresh(1) [OF fresh token calm_signed_in signed_in_detected] by simp
qed


section \<open>Timeouts of the comment sequence\<close>








section \<open>The dump log along a request\<close>

lemma grown_refl: "grown s s" by (simp add: grown_def)
lemma grown_trans: "grown a b \<Longrightarrow> grown b c \<Longrightarrow> grown a c" by (auto simp: grown_def)
lemma kept_grown: "kept s s' \<Longrightarrow> grown s s'" by (simp add: kept_def grown_def)
lemma dumped_grown: "dumped s s' \<Longrightarrow> grown s s'" by (auto simp: dumped_def grown_def)
lemma grown_dumped: "grown a b \<Longrightarrow> dumped b c \<Longrightarrow> dumped a c" by (auto simp: dumped_def grown_def)
lemma dumped_then_grown: "dumped a b \<Longrightarrow> grown b c \<Longrightarrow> dumped a c" by (auto simp: dumped_def grown_def)

lemma io_bind_returns:
  "io_bind m f s = (Inr y, s') \<Longrightarrow> \<exists>x s1. m s = (Inr x, s1) \<and> f x s1 = (Inr y, s')"
  by (cases "m s") (auto simp: io_bind_def split: sum.splits)

lemma grown_bind:
  assumes "\<And>s. grown s (snd (m s))" "\<And>x s. grown s (snd (f x s))"
  shows "grown s (snd (io_bind m f s))"
proof (cases "m s")
  case (Pair r s1)
  have g1: "grown s s1" using assms(1) [of s] Pair by simp
  show ?thesis
  proof (cases r)
    case (Inl e)
    then show ?thesis using Pair g1 by (simp add: io_bind_def)
  next
    case (Inr x)
    have "grown s1 (snd (f x s1))" by (rule assms(2))
    then show ?thesis using Pair Inr g1 by (auto simp: io_bind_def intro: grown_trans)
  qed
qed

lemma dump_debug_dumped: "dumped s (snd (dump_debug w tag s))"
  using dump_debug_log [of w tag s] by (simp add: dumped_def)

lemma dump_then_return: "io_bind (dump_debug w tag) (\<lambda>_. io_return x) s = (r, s') \<Longrightarrow> dumped s s'"
  using dump_debug_dumped [of s w tag]
  by (cases "dump_debug w tag s") (auto simp: io_bind_def io_return_def split: sum.splits)

lemma launch_grown: "grown s (snd (launch w opts s))"
  by (simp add: launch_def grown_def advance_def split: option.splits)

lemma open_session_grown: "grown s (snd (open_session cfg w s))"
  unfolding open_session_def driver_get_def add_cookie_def
  by (intro grown_bind launch_grown kept_grown kept_external kept_sleep)

lemma report_grown: "grown s (snd (report w st s))"
  using dump_then_return [of w "tag_of st" False s]
  by (cases "io_bind (dump_debug w (tag_of st)) (\<lambda>_. io_return False) s")
     (auto simp: report_def io_return_def grown_refl dumped_grown)

lemma detect_login_grown: "grown s (snd (detect_login w s))"
  unfolding detect_login_refines
  by (intro grown_bind report_grown kept_grown kept_detect_state)

lemma detect_login_False: "detect_login w s = (Inr False, s') \<Longrightarrow> dumped s s'"
proof -
  assume a: "detect_login w s = (Inr False, s')"
  have "io_bind (detect_state w) (report w) s = (Inr False, s')"
    using a detect_login_refines [of w s] by simp
  then obtain st s1 where d: "detect_state w s = (Inr st, s1)" and r: "report w st s1 = (Inr False, s')"
    using io_bind_returns [of "detect_state w" "report w" s False s'] by blast
  have k: "grown s s1" using kept_detect_state [of s w] d by (simp add: kept_grown)
  have na: "st \<noteq> Authenticated"
  proof
    assume "st = Authenticated"
    then have "report w st s1 = (Inr True, s1)" by (simp add: report_def io_return_def)
    then show False using r by simp
  qed
  have "io_bind (dump_debug w (tag_of st)) (\<lambda>_. io_return False) s1 = (Inr False, s')"
    using r na by (simp add: report_def)
  then have "dumped s1 s'" by (rule dump_then_return)
  then show ?thesis using k grown_dumped by blast
qed

lemma start_session_grown: "grown s (snd (start_session cfg w s))"
  unfolding start_session_def
  by (intro grown_bind open_session_grown detect_login_grown)

lemma start_session_False: "start_session cfg w s = (Inr False, s') \<Longrightarrow> dumped s s'"
proof -
  assume "start_session cfg w s = (Inr False, s')"
  then have "io_bind (open_session cfg w) (\<lambda>_. detect_login w) s = (Inr False, s')"
    by (simp add: start_session_def)
  then obtain u s1 where o: "open_session cfg w s = (Inr u, s1)" and d: "detect_login w s1 = (Inr False, s')"
    using io_bind_returns [of "open_session cfg w" "\<lambda>_. detect_login w" s False s'] by blast
  have "grown s s1" using open_session_grown [of s cfg w] o by simp
  then show ?thesis using detect_login_False [OF d] grown_dumped by blast
qed

lemma initialize_browser_grown: "grown s (snd (initialize_browser cfg w s))"
proof (cases "driver s \<noteq> None \<or> token_missing cfg")
  case True
  then show ?thesis by (auto simp: initialize_browser_def grown_refl)
next
  case False
  obtain r s1 where b: "start_session cfg w s = (r, s1)" by (cases "start_session cfg w s")
  have g: "grown s s1" using start_session_grown [of s cfg w] b by simp
  show ?thesis
  proof (cases r)
    case (Inl e)
    obtain r2 s2 where h: "io_bind (dump_debug w ''init_failed'') (\<lambda>_. io_return False) s1 = (r2, s2)"
      by (cases "io_bind (dump_debug w ''init_failed'') (\<lambda>_. io_return False) s1")
    have "grown s1 s2" using dump_then_return [OF h] by (rule dumped_grown)
    then show ?thesis
      using False b Inl h g by (auto simp: initialize_browser_def try_except_def intro: grown_trans)
  next
    case (Inr x)
    then show ?thesis
      using False b g by (simp add: initialize_browser_def try_except_def)
  qed
qed

lemma initialize_browser_False:
  assumes "\<not> token_missing cfg" and "initialize_browser cfg w s = (Inr False, s')"
  shows "dumped s s'"
proof (cases "driver s = None")
  case False
  then show ?thesis using assms(2) by (simp add: initialize_browser_def)
next
  case True
  obtain r s1 where b: "start_session cfg w s = (r, s1)" by (cases "start_session cfg w s")
  have g: "grown s s1" using start_session_grown [of s cfg w] b by simp
  show ?thesis
  proof (cases r)
    case (Inl e)
    then have "io_bind (dump_debug w ''init_failed'') (\<lambda>_. io_return False) s1 = (Inr False, s')"
      using True assms b by (simp add: initialize_browser_def try_except_def)
    then have "dumped s1 s'" by (rule dump_then_return)
    then show ?thesis using g grown_dumped by blast
  next
    case (Inr x)
    then have "start_session cfg w s = (Inr False, s')"
      using True assms b by (simp add: initialize_browser_def try_except_def)
    then show ?thesis by (rule start_session_False)
  qed
qed

lemma scrape_hashtag_empty:
  assumes "scrape_hashtag w hashtag max_posts s = Some (Inr [], s')" and "1 \<le> max_posts"
  shows "dumped s s'"
proof -
  obtain r s1 where o: "open_feed w hashtag s = (r, s1)" by (cases "open_feed w hashtag s")
  have g: "grown s s1" using kept_open_feed [of s w hashtag] o by (simp add: kept_grown)
  show ?thesis
  proof (cases r)
    case (Inl e)
    then show ?thesis using assms(1) o by (simp add: scrape_hashtag_def)
  next
    case (Inr chosen)
    show ?thesis
    proof (cases chosen)
      case None
      then have "io_bind (dump_debug w ''no_posts'') (\<lambda>_. io_return ([] :: post list)) s1 = (Inr [], s')"
        using assms(1) o Inr by (simp add: scrape_hashtag_def)
      then have "dumped s1 s'" by (rule dump_then_return)
      then show ?thesis using g grown_dumped by blast
    next
      case (Some xp)
      have unf: "scrape_hashtag w hashtag max_posts s =
          (case harvest_loop w xp max_posts ([], {}) s1 of
             None \<Rightarrow> None
           | Some (Inl e, s2) \<Rightarrow> Some (Inl e, s2)
           | Some (Inr posts, s2) \<Rightarrow> Some (Inr (slice_to max_posts posts), s2))"
        using o Inr Some by (simp add: scrape_hashtag_def)
      show ?thesis
      proof (cases "harvest_loop w xp max_posts ([], {}) s1")
        case None
        then show ?thesis using unf assms(1) by simp
      next
        case (Some y)
        obtain r2 s2 where y: "y = (r2, s2)" by (cases y)
        show ?thesis
        proof (cases r2)
          case (Inl e)
          then show ?thesis using unf assms(1) Some y by simp
        next
          case (Inr lp)
          have l: "harvest_loop w xp max_posts ([], {}) s1 = Some (Inr lp, s2)"
            using Some y Inr by simp
          have p: "slice_to max_posts lp = []"
            using unf assms(1) l by simp
          have "max_posts \<le> int (length lp)" using harvest_loop_full [OF l] .
          then have "lp \<noteq> []" using assms(2) by auto
          then have False using p assms(2) by (simp add: slice_to_def)
          then show ?thesis ..
        qed
      qed
    qed
  qed
qed

lemma io_bind_InrE:
  assumes "io_bind m f s = (Inr y, s')"
  obtains x s1 where "m s = (Inr x, s1)" and "f x s1 = (Inr y, s')"
  using io_bind_returns [OF assms] by blast

lemma submit_comment_Inr:
  assumes "submit_comment w data s = (Inr x, s')"
  shows "x = comment_success"
  using assms unfolding submit_comment_def
  by (elim io_bind_InrE) (simp add: io_return_def)

lemma scrape_error_dumped:
  assumes r: "scrape py cfg w request s = Some (Inr (code, body), s')"
    and e: "code \<noteq> 200" and token: "\<not> token_missing cfg"
  shows "dumped s s'"
proof -
  obtain r1 s1 where i: "initialize_browser cfg w s = (r1, s1)" by (cases "initialize_browser cfg w s")
  have g1: "grown s s1" using initialize_browser_grown [of s cfg w] i by simp
  show ?thesis
  proof (cases r1)
    case (Inl ex)
    then show ?thesis using r i by (simp add: scrape_def)
  next
    case (Inr ok)
    show ?thesis
    proof (cases ok)
      case False
      then have "s' = s1" using r i Inr by (simp add: scrape_def)
      then show ?thesis using initialize_browser_False [OF token] i Inr False by simp
    next
      case True
      show ?thesis
      proof (cases request)
        case (Inl ex)
        then show ?thesis using r i Inr True by (simp add: scrape_def)
      next
        case req: (Inr bodyv)
        define data where "data = (if truthy bodyv then bodyv else JObj [])"
        show ?thesis
        proof (cases "dict_get data ''hashtag'' (JStr ''hiring'')")
          case (Inl ex)
          then show ?thesis using r i Inr True req by (simp add: scrape_def data_def Let_def)
        next
          case h: (Inr hv)
          define hashtag where "hashtag = strip (lstrip (CHR ''#'') (py_str py hv))"
          have unf: "scrape py cfg w request s =
              (case scrape_hashtag w hashtag (effective_max_posts py data) s1 of
                 None \<Rightarrow> None
               | Some (Inl e, s2) \<Rightarrow> Some (Inl e, s2)
               | Some (Inr results, s2) \<Rightarrow>
                   if results = [] then Some (Inr no_posts_found, s2)
                   else Some (Inr (200, JArr (map post_json results)), s2))"
            using i Inr True req h by (simp add: scrape_def data_def Let_def hashtag_def)
          show ?thesis
          proof (cases "scrape_hashtag w hashtag (effective_max_posts py data) s1")
            case None
            then show ?thesis using unf r by simp
          next
            case (Some y)
            obtain r2 s2 where y: "y = (r2, s2)" by (cases y)
            show ?thesis
            proof (cases r2)
              case (Inl ex)
              then show ?thesis using unf r Some y by simp
            next
              case res: (Inr results)
              show ?thesis
              proof (cases "results = []")
                case False
                then show ?thesis using unf r Some y res e by simp
              next
                case True
                then have "s' = s2" using unf r Some y res by simp
                moreover have "dumped s1 s2"
                  using scrape_hashtag_empty [of w hashtag "effective_max_posts py data" s1 s2]
                    Some y res True effective_max_posts_range [of py data] by simp
                ultimately show ?thesis using g1 grown_dumped by blast
              qed
            qed
          qed
        qed
      qed
    qed
  qed
qed

lemma comment_error_dumped:
  assumes r: "comment cfg w request s = (Inr (code, body), s')"
    and e: "code \<noteq> 200" and token: "\<not> token_missing cfg"
  shows "dumped s s'"
proof -
  obtain r1 s1 where i: "initialize_browser cfg w s = (r1, s1)" by (cases "initialize_browser cfg w s")
  have g1: "grown s s1" using initialize_browser_grown [of s cfg w] i by simp
  show ?thesis
  proof (cases r1)
    case (Inl ex)
    then show ?thesis using r i by (simp add: comment_def)
  next
    case (Inr ok)
    show ?thesis
    proof (cases ok)
      case False
      then have "s' = s1" using r i Inr by (simp add: comment_def)
      then show ?thesis using initialize_browser_False [OF token] i Inr False by simp
    next
      case True
      define guarded where "guarded = (\<lambda>data. try_except (submit_comment w data) (\<lambda>e. e = TimeoutException)
            (io_bind (dump_debug w ''comment_failed'') (\<lambda>_. io_return comment_failed)))"
      have "io_bind (raise_or request) (\<lambda>data.
            io_bind (raise_or (subscript data ''post_url'')) (\<lambda>post_url.
            io_bind (driver_get w post_url) (\<lambda>_.
            io_bind (sleep 3000) (\<lambda>_. guarded data)))) s1 = (Inr (code, body), s')"
        using r i Inr True by (simp add: comment_def guarded_def)
      then obtain data sa where a: "raise_or request s1 = (Inr data, sa)"
        and "io_bind (raise_or (subscript data ''post_url'')) (\<lambda>post_url.
            io_bind (driver_get w post_url) (\<lambda>_.
            io_bind (sleep 3000) (\<lambda>_. guarded data))) sa = (Inr (code, body), s')"
        by (blast dest: io_bind_returns)
      then obtain url sb where b: "raise_or (subscript data ''post_url'') sa = (Inr url, sb)"
        and "io_bind (driver_get w url) (\<lambda>_.
            io_bind (sleep 3000) (\<lambda>_. guarded data)) sb = (Inr (code, body), s')"
        by (blast dest: io_bind_returns)
      then obtain u sc where c: "driver_get w url sb = (Inr u, sc)"
        and "io_bind (sleep 3000) (\<lambda>_. guarded data) sc = (Inr (code, body), s')"
        by (blast dest: io_bind_returns)
      then obtain u' sd where d: "sleep 3000 sc = (Inr u', sd)"
        and t: "guarded data sd = (Inr (code, body), s')"
        by (blast dest: io_bind_returns)
      have ka: "kept s1 sa" using kept_raise_or [of s1 request] a by simp
      have kb: "kept sa sb" using kept_raise_or [of sa "subscript data ''post_url''"] b by simp
      have kc: "kept sb sc" using kept_external [of sb w] c by (simp add: driver_get_def)
      have kd: "kept sc sd" using kept_sleep [of sc 3000] d by simp
      have g2: "grown s sd"
        using g1 ka kb kc kd by (blast intro: grown_trans kept_grown)
      obtain r3 s3 where sc3: "submit_comment w data sd = (r3, s3)"
        by (cases "submit_comment w data sd")
      have k3: "kept sd s3" using kept_submit_comment [of sd w data] sc3 by simp
      show ?thesis
      proof (cases r3)
        case (Inl ex)
        then have "io_bind (dump_debug w ''comment_failed'') (\<lambda>_. io_return comment_failed) s3
            = (Inr (code, body), s')"
          using t sc3 by (simp add: guarded_def try_except_def split: if_splits)
        then have "dumped s3 s'" by (rule dump_then_return)
        then show ?thesis using g2 k3 by (blast intro: grown_dumped grown_trans kept_grown)
      next
        case inr3: (Inr x)
        then have "x = comment_success" using submit_comment_Inr sc3 by blast
        then have "code = 200"
          using t sc3 inr3 by (simp add: guarded_def try_except_def comment_success_def)
        then show ?thesis using e by simp
      qed
    qed
  qed
qed

text \<open>
  C10, amended: with a credential token configured, a request that a route answers with
  one of its error responses (500 browser init failed, 404 no posts found, 500 failed) has
  called \<open>dump_debug\<close> at least once before the response: the dump log of the request
  grew. This holds in every world, whatever fails.
\<close>

theorem error_response_after_dump:
  assumes "map_option fst (handle py cfg w rq s) = Some (Inr (code, body))"
    and "code \<noteq> 200" and "\<not> token_missing cfg"
  shows "\<exists>tags. tags \<noteq> []
     \<and> map_option (\<lambda>r. dumps (snd r)) (handle py cfg w rq s) = Some (dumps s @ tags)"
proof -
  obtain s' where h: "handle py cfg w rq s = Some (Inr (code, body), s')"
    using assms(1) by (cases "handle py cfg w rq s") auto
  have "dumped s s'"
  proof (cases "fst rq")
    case Scrape
    then show ?thesis
      using h scrape_error_dumped [OF _ assms(2,3)] by (simp add: handle_def)
  next
    case Comment
    then show ?thesis
      using h comment_error_dumped [OF _ assms(2,3)] by (simp add: handle_def)
  qed
  then show ?thesis
    using h by (simp add: dumped_def)
qed

text \<open>
  C10, as stated, on the path it names: with no token configured the request is answered
  500 browser init failed and \<open>dump_debug\<close> was never called.
\<close>

theorem init_failure_without_dump_counterexample:
  "handle plain_builtins no_token blank_world (Scrape, Inr (JObj [])) initial_state
     = Some (Inr (500, JObj [(''error'', JStr ''browser init failed'')]), initial_state)
   \<and> dumps initial_state = []"
proof -
  have "token_missing no_token" by (simp add: token_missing_def no_token_def)
  then show ?thesis
    using handle_no_token [of no_token initial_state plain_builtins blank_world "(Scrape, Inr (JObj []))"]
    by (simp add: initial_state_def init_failed_def)
qed

lemma checkpoint_init: "fst (initialize_browser with_token checkpoint_world initial_state) = Inr False"
proof -
  have fresh: "driver initial_state = None" by (simp add: initial_state_def)
  have token: "\<not> token_missing with_token" by (simp add: token_missing_def with_token_def)
  show ?thesis
    using initialize_browser_fresh(1) [OF fresh token calm_blank(3) checkpoint_detected] by simp
qed

theorem error_response_after_dump_witness:
  "map_option fst (handle plain_builtins with_token checkpoint_world (Comment, Inr JNull) initial_state)
     = Some (Inr (500, JObj [(''error'', JStr ''browser init failed'')]))
   \<and> (500 :: nat) \<noteq> 200
   \<and> \<not> token_missing with_token
   \<and> (\<exists>tags. tags \<noteq> []
        \<and> map_option (\<lambda>r. dumps (snd r))
             (handle plain_builtins with_token checkpoint_world (Comment, Inr JNull) initial_state)
           = Some (dumps initial_state @ tags))"
proof -
  have token: "\<not> token_missing with_token" by (simp add: token_missing_def with_token_def)
  have ne: "(500 :: nat) \<noteq> 200" by simp
  obtain s1 where i: "initialize_browser with_token checkpoint_world initial_state = (Inr False, s1)"
    using checkpoint_init by (cases "initialize_browser with_token checkpoint_world initial_state") simp
  have r: "map_option fst (handle plain_builtins with_token checkpoint_world (Comment, Inr JNull) initial_state)
      = Some (Inr (500, JObj [(''error'', JStr ''browser init failed'')]))"
    using i by (simp add: handle_def comment_def init_failed_def)
  show ?thesis
    using r ne token error_response_after_dump [OF r ne token] by blast
qed

section \<open>Exceptions that leave a route\<close>

lemma flaky_init:
  "initialize_browser with_token flaky_world initial_state
     = (Inr True, \<lparr>driver = Some 0, wait = Some 25000, tick = 5, now = 5000, dumps = []\<rparr>)"
proof -
  define s4 :: state where "s4 = \<lparr>driver = Some 0, wait = Some 25000, tick = 4, now = 5000, dumps = []\<rparr>"
  have o: "open_session with_token flaky_world initial_state = (Inr (), s4)"
    by (simp add: open_session_def launch_def driver_get_def add_cookie_def external_def sleep_def
        io_bind_def advance_def flaky_world_def signed_in_world_def blank_world_def
        initial_state_def s4_def)
  have "wait_for_any flaky_world LOGIN_OK 25000 s4 = (Inr True, advance flaky_world s4)"
    unfolding LOGIN_OK_def
    by (rule wait_for_any_at_once)
       (simp_all add: flaky_world_def signed_in_world_def blank_world_def LOGIN_OK_def s4_def)
  then have d: "detect_login flaky_world s4 = (Inr True, advance flaky_world s4)"
    by (simp add: detect_login_def io_bind_def io_return_def)
  have "advance flaky_world s4 = \<lparr>driver = Some 0, wait = Some 25000, tick = 5, now = 5000, dumps = []\<rparr>"
    by (simp add: advance_def s4_def flaky_world_def signed_in_world_def blank_world_def)
  then show ?thesis
    using o d
    by (simp add: initialize_browser_def try_except_def start_session_def io_bind_def
        initial_state_def token_missing_def with_token_def)
qed

lemma open_feed_fails:
  "fails w (tick s) = Some e \<Longrightarrow> open_feed w hashtag s = (Inl e, advance w s)"
  by (simp add: open_feed_def driver_get_def external_def io_bind_def)

text \<open>
  C9, where the code departs from it: in a signed-in session \<open>/comment\<close> with a body
  without \<open>post_url\<close> raises \<open>KeyError\<close> out of the view function, with a \<open>null\<close> body
  \<open>TypeError\<close>; and a \<open>driver.get\<close> that fails in \<open>scrape_hashtag\<close> leaves \<open>/scrape\<close>
  as the exception it is. None is one of the JSON responses.
\<close>

theorem exceptions_leave_the_routes:
  "fst (comment with_token signed_in_world (Inr (JObj [(''comment'', JStr ''Nice'')])) initial_state)
     = Inl (KeyError ''post_url'')
   \<and> fst (comment with_token signed_in_world (Inr JNull) initial_state) = Inl TypeError
   \<and> map_option fst (scrape plain_builtins with_token flaky_world (Inr (JObj [])) initial_state)
     = Some (Inl WebDriverException)"
proof -
  obtain s1 where i: "initialize_browser with_token signed_in_world initial_state = (Inr True, s1)"
    using signed_in_init by (cases "initialize_browser with_token signed_in_world initial_state") simp
  have a: "fst (comment with_token signed_in_world (Inr (JObj [(''comment'', JStr ''Nice'')])) initial_state)
     = Inl (KeyError ''post_url'')"
    using i by (simp add: comment_def io_bind_def raise_or_def subscript_def)
  have b: "fst (comment with_token signed_in_world (Inr JNull) initial_state) = Inl TypeError"
    using i by (simp add: comment_def io_bind_def raise_or_def subscript_def)
  have "fails flaky_world (tick \<lparr>driver = Some 0, wait = Some 25000, tick = 5, now = 5000, dumps = []\<rparr>)
      = Some WebDriverException"
    by (simp add: flaky_world_def)
  then have c: "map_option fst (scrape plain_builtins with_token flaky_world (Inr (JObj [])) initial_state)
     = Some (Inl WebDriverException)"
    by (simp add: scrape_def flaky_init truthy_def dict_get_def scrape_hashtag_def open_feed_fails)
  show ?thesis using a b c by simp
qed

end
